theory Spec2Isabelle
  imports Complex_Main "HOL-Library.Word"
begin

section \<open>JavaScript values\<close>

text \<open>
  A JavaScript string is a sequence of 16-bit code units. A JavaScript number is an IEEE
  double; it is modelled by the real number it denotes, and the places where the
  program's floating-point arithmetic rounds are written out with an explicit rounding
  function (see the generator below). The two zeros, the infinities and NaN are not
  distinguished: no value of this program is one of them.

  An object is the list of its own properties in the order of their definition.
  (JavaScript enumerates the properties whose names are array indices first; nothing
  here depends on the order.)
\<close>

type_synonym code_unit = "16 word"
type_synonym js_string = "code_unit list"

abbreviation ch :: "char \<Rightarrow> code_unit" where
  "ch c \<equiv> of_char c"

definition str :: "string \<Rightarrow> js_string" where
  "str s = map of_char s"

datatype js_value =
    JUndefined
  | JNull
  | JBool bool
  | JNum real
  | JStr js_string
  | JArr "js_value list"
  | JObj "(js_string \<times> js_value) list"

datatype js_error = SyntaxError | TypeError | Error

text \<open>
  \<^verbatim>\<open>try { body } catch (e) { handler }\<close>: a computation that throws is \<open>Inl\<close> of the
  error.
\<close>

definition try_catch :: "js_error + 'a \<Rightarrow> (js_error \<Rightarrow> js_error + 'a) \<Rightarrow> js_error + 'a" where
  "try_catch body handler = (case body of Inl e \<Rightarrow> handler e | Inr v \<Rightarrow> Inr v)"

section \<open>JSON.parse\<close>

text \<open>
  \<^verbatim>\<open>JSON.parse\<close> is the language's; value.ts calls it with one argument. It is modelled
  after the JSON grammar (ECMA-404) in two passes: a lexer from code units to tokens and
  a parser from tokens to a value. White space is space, tab, line feed and carriage
  return, between tokens only. A text that is not in the grammar is a \<open>SyntaxError\<close>.
\<close>

subsection \<open>The lexer\<close>

definition is_ws :: "code_unit \<Rightarrow> bool" where
  "is_ws c = (c = 0x20 \<or> c = 0x09 \<or> c = 0x0A \<or> c = 0x0D)"

definition is_digit :: "code_unit \<Rightarrow> bool" where
  "is_digit c = (ch CHR ''0'' \<le> c \<and> c \<le> ch CHR ''9'')"

definition digit_val :: "code_unit \<Rightarrow> nat" where
  "digit_val c = unat c - 48"

definition digits_val :: "js_string \<Rightarrow> nat" where
  "digits_val ds = foldl (\<lambda>n d. 10 * n + digit_val d) 0 ds"

definition hex_val :: "code_unit \<Rightarrow> nat option" where
  "hex_val c =
     (if ch CHR ''0'' \<le> c \<and> c \<le> ch CHR ''9'' then Some (unat c - 48)
      else if ch CHR ''a'' \<le> c \<and> c \<le> ch CHR ''f'' then Some (unat c - 87)
      else if ch CHR ''A'' \<le> c \<and> c \<le> ch CHR ''F'' then Some (unat c - 55)
      else None)"

definition hex4 :: "code_unit \<Rightarrow> code_unit \<Rightarrow> code_unit \<Rightarrow> code_unit \<Rightarrow> code_unit option" where
  "hex4 a b c d =
     (case (hex_val a, hex_val b, hex_val c, hex_val d) of
        (Some x, Some y, Some z, Some w) \<Rightarrow> Some (of_nat (((x * 16 + y) * 16 + z) * 16 + w))
      | _ \<Rightarrow> None)"

definition escape_char :: "code_unit \<Rightarrow> code_unit option" where
  "escape_char e =
     (if e = 0x22 then Some 0x22
      else if e = 0x5C then Some 0x5C
      else if e = ch CHR ''/'' then Some (ch CHR ''/'')
      else if e = ch CHR ''b'' then Some 0x08
      else if e = ch CHR ''f'' then Some 0x0C
      else if e = ch CHR ''n'' then Some 0x0A
      else if e = ch CHR ''r'' then Some 0x0D
      else if e = ch CHR ''t'' then Some 0x09
      else None)"

text \<open>
  A string, after its opening quotation mark: the code units up to the closing quotation
  mark, with the escapes (of the quotation mark, the backslash, the slash, b, f, n, r, t
  and u with four hexadecimal digits) replaced by what they stand for, and the text
  after the closing quotation mark. A code unit below 0x20 is not allowed in a string.
\<close>

fun lex_string :: "js_string \<Rightarrow> (js_string \<times> js_string) option" where
  "lex_string [] = None"
| "lex_string (c # cs) =
     (if c = 0x22 then Some ([], cs)
      else if c = 0x5C then
        (case cs of
           [] \<Rightarrow> None
         | e # es \<Rightarrow>
             if e = ch CHR ''u'' then
               (case es of
                  h1 # h2 # h3 # h4 # rest \<Rightarrow>
                    (case hex4 h1 h2 h3 h4 of
                       None \<Rightarrow> None
                     | Some u \<Rightarrow> map_option (\<lambda>(s, r). (u # s, r)) (lex_string rest))
                | _ \<Rightarrow> None)
             else
               (case escape_char e of
                  None \<Rightarrow> None
                | Some u \<Rightarrow> map_option (\<lambda>(s, r). (u # s, r)) (lex_string es)))
      else if c < 0x20 then None
      else map_option (\<lambda>(s, r). (c # s, r)) (lex_string cs))"

text \<open>
  A number: an optional minus sign, an integer part without a leading zero (or a single
  zero), an optional fraction of at least one digit and an optional exponent of at
  least one digit; its value, and the text after it.
\<close>

definition scale10 :: "real \<Rightarrow> int \<Rightarrow> real" where
  "scale10 x e = (if 0 \<le> e then x * 10 ^ nat e else x / 10 ^ nat (- e))"

definition lex_exponent :: "js_string \<Rightarrow> (int \<times> js_string) option" where
  "lex_exponent cs =
     (case cs of
        [] \<Rightarrow> Some (0, cs)
      | c # r \<Rightarrow>
          if c = ch CHR ''e'' \<or> c = ch CHR ''E'' then
            (let neg = (r \<noteq> [] \<and> hd r = ch CHR ''-'');
                 r' = (if r \<noteq> [] \<and> (hd r = ch CHR ''-'' \<or> hd r = ch CHR ''+'') then tl r else r);
                 ds = takeWhile is_digit r'
             in if ds = [] then None
                else Some ((if neg then - int (digits_val ds) else int (digits_val ds)),
                           dropWhile is_digit r'))
          else Some (0, cs))"

definition lex_fraction :: "js_string \<Rightarrow> (js_string \<times> js_string) option" where
  "lex_fraction cs =
     (case cs of
        [] \<Rightarrow> Some ([], cs)
      | c # r \<Rightarrow>
          if c = ch CHR ''.'' then
            (let ds = takeWhile is_digit r
             in if ds = [] then None else Some (ds, dropWhile is_digit r))
          else Some ([], cs))"

definition lex_number :: "js_string \<Rightarrow> (real \<times> js_string) option" where
  "lex_number cs =
     (let neg = (cs \<noteq> [] \<and> hd cs = ch CHR ''-'');
          cs1 = (if neg then tl cs else cs);
          ip = takeWhile is_digit cs1
      in if ip = [] \<or> (1 < length ip \<and> hd ip = ch CHR ''0'') then None
         else
           (case lex_fraction (dropWhile is_digit cs1) of
              None \<Rightarrow> None
            | Some (fr, r2) \<Rightarrow>
                (case lex_exponent r2 of
                   None \<Rightarrow> None
                 | Some (e, r3) \<Rightarrow>
                     (let m = real (digits_val ip) + real (digits_val fr) / 10 ^ length fr
                      in Some (scale10 (if neg then - m else m) e, r3)))))"

text \<open>
  The tokens: the six structural characters and the literals (null, true, false, a
  number, a string), each with its value.
\<close>

datatype token = LBrace | RBrace | LBracket | RBracket | Colon | Comma | Lit js_value

lemma lex_string_length: "lex_string cs = Some (s, rest) \<Longrightarrow> length rest \<le> length cs"
proof (induction cs arbitrary: s rest rule: lex_string.induct)
  case 1
  then show ?case by simp
next
  case (2 c cs)
  then show ?case
    by (fastforce split: if_splits list.splits option.splits)
qed

lemma lex_exponent_length: "lex_exponent cs = Some (e, rest) \<Longrightarrow> length rest \<le> length cs"
  by (auto simp: lex_exponent_def Let_def split: list.splits if_splits
      intro: le_trans [OF length_dropWhile_le] le_SucI)

lemma lex_fraction_length: "lex_fraction cs = Some (e, rest) \<Longrightarrow> length rest \<le> length cs"
  by (auto simp: lex_fraction_def Let_def split: list.splits if_splits
      intro: le_trans [OF length_dropWhile_le] le_SucI)

lemma takeWhile_dropWhile_length:
  "length (dropWhile P xs) + length (takeWhile P xs) = length xs"
  by (metis add.commute length_append takeWhile_dropWhile_id)

lemma lex_number_length:
  assumes "lex_number cs = Some (x, rest)"
  shows "length rest < length cs"
proof -
  define cs1 where "cs1 = (if cs \<noteq> [] \<and> hd cs = ch CHR ''-'' then tl cs else cs)"
  define ip where "ip = takeWhile is_digit cs1"
  from assms obtain fr r2 e where
    ip: "ip \<noteq> []" and
    fr: "lex_fraction (dropWhile is_digit cs1) = Some (fr, r2)" and
    ex: "lex_exponent r2 = Some (e, rest)"
    by (auto simp: lex_number_def Let_def cs1_def ip_def split: if_splits option.splits)
  have "length rest \<le> length (dropWhile is_digit cs1)"
    using lex_fraction_length [OF fr] lex_exponent_length [OF ex] by simp
  moreover have "length (dropWhile is_digit cs1) < length cs1"
    using ip takeWhile_dropWhile_length [of is_digit cs1] by (cases ip) (simp_all add: ip_def)
  moreover have "length cs1 \<le> length cs"
    by (simp add: cs1_def)
  ultimately show ?thesis by simp
qed

function tokenize :: "js_string \<Rightarrow> token list option" where
  "tokenize [] = Some []"
| "tokenize (c # cs) =
     (if is_ws c then tokenize cs
      else if c = ch CHR ''{'' then map_option (Cons LBrace) (tokenize cs)
      else if c = ch CHR ''}'' then map_option (Cons RBrace) (tokenize cs)
      else if c = ch CHR ''['' then map_option (Cons LBracket) (tokenize cs)
      else if c = ch CHR '']'' then map_option (Cons RBracket) (tokenize cs)
      else if c = ch CHR '':'' then map_option (Cons Colon) (tokenize cs)
      else if c = ch CHR '','' then map_option (Cons Comma) (tokenize cs)
      else if c = 0x22 then
        (case lex_string cs of
           None \<Rightarrow> None
         | Some (s, rest) \<Rightarrow> map_option (Cons (Lit (JStr s))) (tokenize rest))
      else if c = ch CHR ''-'' \<or> is_digit c then
        (case lex_number (c # cs) of
           None \<Rightarrow> None
         | Some (x, rest) \<Rightarrow> map_option (Cons (Lit (JNum x))) (tokenize rest))
      else if take 4 (c # cs) = str ''true'' then
        map_option (Cons (Lit (JBool True))) (tokenize (drop 3 cs))
      else if take 5 (c # cs) = str ''false'' then
        map_option (Cons (Lit (JBool False))) (tokenize (drop 4 cs))
      else if take 4 (c # cs) = str ''null'' then
        map_option (Cons (Lit JNull)) (tokenize (drop 3 cs))
      else None)"
  by pat_completeness auto
termination
proof (relation "measure length", goal_cases)
  case (9 c cs x s rest)
  then show ?case using lex_string_length [of cs s rest] by simp
next
  case (10 c cs x y rest)
  then show ?case using lex_number_length [of "c # cs" y rest] by simp
qed simp_all

subsection \<open>The parser\<close>

text \<open>
  The parser reads the tokens from left to right with a stack of the arrays and objects
  that are open: an array with its elements so far, an object with its properties so
  far, and, above an object, the key whose value is being read. \<open>expect\<close> is what may
  come next. A property defined twice keeps its place and takes the later value.
\<close>

datatype frame =
    FArr "js_value list"
  | FObj "(js_string \<times> js_value) list"
  | FKey js_string

datatype expect = Value | ValueOrClose | KeyOrClose | Key | ColonNext | Next | End js_value

fun define_property :: "(js_string \<times> js_value) list \<Rightarrow> js_string \<Rightarrow> js_value \<Rightarrow> (js_string \<times> js_value) list" where
  "define_property [] k v = [(k, v)]"
| "define_property ((k', v') # ps) k v =
     (if k' = k then (k, v) # ps else (k', v') # define_property ps k v)"

fun reduce :: "js_value \<Rightarrow> frame list \<Rightarrow> (expect \<times> frame list) option" where
  "reduce v [] = Some (End v, [])"
| "reduce v (FArr es # st) = Some (Next, FArr (es @ [v]) # st)"
| "reduce v (FKey k # FObj ps # st) = Some (Next, FObj (define_property ps k v) # st)"
| "reduce v _ = None"

fun shift_value :: "token \<Rightarrow> frame list \<Rightarrow> (expect \<times> frame list) option" where
  "shift_value (Lit v) st = reduce v st"
| "shift_value LBracket st = Some (ValueOrClose, FArr [] # st)"
| "shift_value LBrace st = Some (KeyOrClose, FObj [] # st)"
| "shift_value _ st = None"

fun shift_key :: "token \<Rightarrow> frame list \<Rightarrow> (expect \<times> frame list) option" where
  "shift_key (Lit (JStr k)) st = Some (ColonNext, FKey k # st)"
| "shift_key _ st = None"

fun parse_step :: "expect \<Rightarrow> frame list \<Rightarrow> token \<Rightarrow> (expect \<times> frame list) option" where
  "parse_step Value st t = shift_value t st"
| "parse_step ValueOrClose (FArr es # st) RBracket = reduce (JArr es) st"
| "parse_step ValueOrClose st t = shift_value t st"
| "parse_step KeyOrClose (FObj ps # st) RBrace = reduce (JObj ps) st"
| "parse_step KeyOrClose st t = shift_key t st"
| "parse_step Key st t = shift_key t st"
| "parse_step ColonNext st Colon = Some (Value, st)"
| "parse_step Next (FArr es # st) Comma = Some (Value, FArr es # st)"
| "parse_step Next (FArr es # st) RBracket = reduce (JArr es) st"
| "parse_step Next (FObj ps # st) Comma = Some (Key, FObj ps # st)"
| "parse_step Next (FObj ps # st) RBrace = reduce (JObj ps) st"
| "parse_step _ _ _ = None"

fun parse_tokens :: "expect \<Rightarrow> frame list \<Rightarrow> token list \<Rightarrow> js_value option" where
  "parse_tokens (End v) [] [] = Some v"
| "parse_tokens e st [] = None"
| "parse_tokens e st (t # ts) =
     (case parse_step e st t of
        None \<Rightarrow> None
      | Some (e', st') \<Rightarrow> parse_tokens e' st' ts)"

definition JSON_parse :: "js_string \<Rightarrow> js_error + js_value" where
  "JSON_parse text =
     (case tokenize text of
        None \<Rightarrow> Inl SyntaxError
      | Some ts \<Rightarrow>
          (case parse_tokens Value [] ts of
             None \<Rightarrow> Inl SyntaxError
           | Some v \<Rightarrow> Inr v))"

section \<open>value.ts\<close>

text \<open>
  \<^verbatim>\<open>const isValidValue = (obj: Readonly<Record<string, unknown>>) =>
  "analyticsData" in obj;\<close>

  The operator \<^verbatim>\<open>in\<close> throws a \<open>TypeError\<close> when its right operand is not an object
  (undefined, null, a boolean, a number or a string). An array is an object; its
  properties are its indices, \<^verbatim>\<open>length\<close> and what it inherits, none of them named
  \<^verbatim>\<open>analyticsData\<close>. An object that JSON.parse built has the property when it has it as
  an own property: it inherits from \<^verbatim>\<open>Object.prototype\<close> only, which has no property
  of that name.
\<close>

definition analyticsData_key :: js_string where
  "analyticsData_key = str ''analyticsData''"

definition isValidValue :: "js_value \<Rightarrow> js_error + bool" where
  "isValidValue obj =
     (case obj of
        JObj ps \<Rightarrow> Inr (analyticsData_key \<in> set (map fst ps))
      | JArr xs \<Rightarrow> Inr False
      | _ \<Rightarrow> Inl TypeError)"

text \<open>The string \<^verbatim>\<open>"invalidValue"\<close>, the third alternative of parseValue's return type.\<close>

definition invalidValue :: js_value where
  "invalidValue = JStr (str ''invalidValue'')"

text \<open>
  \<^verbatim>\<open>export const parseValue = (input: string | null): Value | null | "invalidValue" => {
  if (input === null) { return null; }
  try {
    const parsedValue = JSON.parse(input);
    return isValidValue(parsedValue) ? parsedValue : "invalidValue";
  }
  catch (e) { return "invalidValue"; }
};\<close>
  The result is \<open>Inr\<close> of the value returned, or \<open>Inl\<close> of an error thrown to the
  caller.
\<close>

definition parseValue :: "js_string option \<Rightarrow> js_error + js_value" where
  "parseValue input =
     (case input of
        None \<Rightarrow> Inr JNull
      | Some text \<Rightarrow>
          try_catch
            (case JSON_parse text of
               Inl e \<Rightarrow> Inl e
             | Inr parsedValue \<Rightarrow>
                 (case isValidValue parsedValue of
                    Inl e \<Rightarrow> Inl e
                  | Inr valid \<Rightarrow> Inr (if valid then parsedValue else invalidValue)))
            (\<lambda>e. Inr invalidValue))"

text \<open>
  The specification's wording, for comparison with the code: the parsed result has a
  property named analyticsData.
\<close>

definition has_analyticsData :: "js_value \<Rightarrow> bool" where
  "has_analyticsData v =
     (case v of JObj ps \<Rightarrow> analyticsData_key \<in> fst ` set ps | _ \<Rightarrow> False)"

section \<open>config.ts\<close>

text \<open>
  \<^verbatim>\<open>export const isConfig = (value: Readonly<Record<string, unknown>> | null) =>
  value !== null;\<close>
  The argument is an object (its properties) or null.
\<close>

definition isConfig :: "(js_string \<times> js_value) list option \<Rightarrow> bool" where
  "isConfig v = (v \<noteq> None)"

section \<open>The host: time zone and floating-point rounding\<close>

text \<open>
  Two things the program's results depend on are the host's, not the program's: the
  local time zone, which \<^verbatim>\<open>getDate\<close> and \<^verbatim>\<open>setDate\<close> use, and the rounding of
  floating-point arithmetic. \<open>LocalTZA h t isUTC\<close> is ECMAScript's local time zone
  adjustment in milliseconds, at the UTC time \<open>t\<close> when \<open>isUTC\<close> and at the local time
  \<open>t\<close> otherwise. \<open>round_double h x\<close> is the double that the exact result \<open>x\<close> of an
  operation on doubles is rounded to.
\<close>

record host =
  LocalTZA :: "int \<Rightarrow> bool \<Rightarrow> int"
  round_double :: "real \<Rightarrow> real"

text \<open>
  A finite double is \<open>m * 2 ^ e\<close> for an integer \<open>m\<close> below \<open>2 ^ 53\<close> in absolute value and
  an exponent between -1074 and 971. Rounding to nearest is monotone and leaves every
  double as it is; the properties below that depend on the rounding assume no more of it.
\<close>

definition is_double :: "real \<Rightarrow> bool" where
  "is_double x =
     (\<exists>m e :: int. \<bar>m\<bar> < 2 ^ 53 \<and> - 1074 \<le> e \<and> e \<le> 971 \<and> x = of_int m * 2 powi e)"

definition double_rounding :: "(real \<Rightarrow> real) \<Rightarrow> bool" where
  "double_rounding rd = (mono rd \<and> (\<forall>x. is_double x \<longrightarrow> rd x = x))"

section \<open>Date\<close>

text \<open>
  A time value is a number of milliseconds since 1970-01-01T00:00:00Z; the time values of
  this program are the current time and up to six days before it, far from the ends of
  the range of \<^verbatim>\<open>Date\<close>, so that ECMAScript's TimeClip is the identity on them.
  The functions are ECMAScript's (Day, TimeWithinDay, YearFromTime, MonthFromTime,
  DateFromTime, MakeDay, MakeDate, LocalTime, UTC); the year, month and day of a day
  number, and the day number of a year, month and day, are computed in eras of 400 years
  (146097 days) that start on the first of March.
\<close>

definition msPerDay :: int where
  "msPerDay = 86400000"

definition Day :: "int \<Rightarrow> int" where
  "Day t = t div msPerDay"

definition TimeWithinDay :: "int \<Rightarrow> int" where
  "TimeWithinDay t = t mod msPerDay"

definition era_of_days :: "int \<Rightarrow> int" where
  "era_of_days z = (z + 719468) div 146097"

definition doe_of_days :: "int \<Rightarrow> int" where
  "doe_of_days z = (z + 719468) mod 146097"

definition yoe_of_doe :: "int \<Rightarrow> int" where
  "yoe_of_doe doe = (doe - doe div 1460 + doe div 36524 - doe div 146096) div 365"

definition doy_of_doe :: "int \<Rightarrow> int" where
  "doy_of_doe doe = doe - (365 * yoe_of_doe doe + yoe_of_doe doe div 4 - yoe_of_doe doe div 100)"

definition mp_of_doy :: "int \<Rightarrow> int" where
  "mp_of_doy doy = (5 * doy + 2) div 153"

definition day_of_doy :: "int \<Rightarrow> int" where
  "day_of_doy doy = doy - (153 * mp_of_doy doy + 2) div 5 + 1"

definition month_of_doy :: "int \<Rightarrow> int" where
  "month_of_doy doy = (if mp_of_doy doy < 10 then mp_of_doy doy + 3 else mp_of_doy doy - 9)"

definition civil_from_days :: "int \<Rightarrow> int \<times> int \<times> int" where
  "civil_from_days z =
     (yoe_of_doe (doe_of_days z) + era_of_days z * 400 +
        (if month_of_doy (doy_of_doe (doe_of_days z)) \<le> 2 then 1 else 0),
      month_of_doy (doy_of_doe (doe_of_days z)),
      day_of_doy (doy_of_doe (doe_of_days z)))"

definition shifted_year :: "int \<Rightarrow> int \<Rightarrow> int" where
  "shifted_year y m = (if m \<le> 2 then y - 1 else y)"

definition doy_from_civil :: "int \<Rightarrow> int \<Rightarrow> int" where
  "doy_from_civil m d = (153 * (if 2 < m then m - 3 else m + 9) + 2) div 5 + d - 1"

definition doe_from_civil :: "int \<Rightarrow> int \<Rightarrow> int" where
  "doe_from_civil yoe doy = yoe * 365 + yoe div 4 - yoe div 100 + doy"

definition days_from_civil :: "int \<Rightarrow> int \<Rightarrow> int \<Rightarrow> int" where
  "days_from_civil y m d =
     shifted_year y m div 400 * 146097 +
     doe_from_civil (shifted_year y m mod 400) (doy_from_civil m d) - 719468"

text \<open>ECMAScript's months are numbered from 0, its days of the month from 1.\<close>

definition YearFromTime :: "int \<Rightarrow> int" where
  "YearFromTime t = fst (civil_from_days (Day t))"

definition MonthFromTime :: "int \<Rightarrow> int" where
  "MonthFromTime t = fst (snd (civil_from_days (Day t))) - 1"

definition DateFromTime :: "int \<Rightarrow> int" where
  "DateFromTime t = snd (snd (civil_from_days (Day t)))"

definition HourFromTime :: "int \<Rightarrow> int" where
  "HourFromTime t = t div 3600000 mod 24"

definition MinFromTime :: "int \<Rightarrow> int" where
  "MinFromTime t = t div 60000 mod 60"

definition SecFromTime :: "int \<Rightarrow> int" where
  "SecFromTime t = t div 1000 mod 60"

definition msFromTime :: "int \<Rightarrow> int" where
  "msFromTime t = t mod 1000"

text \<open>
  \<open>MakeDay year month date\<close>, for a month from 0 to 11: the day number of the first of
  the month, plus \<open>date - 1\<close>; the date may be zero or negative and then falls in an
  earlier month.
\<close>

definition MakeDay :: "int \<Rightarrow> int \<Rightarrow> int \<Rightarrow> int" where
  "MakeDay year month date = days_from_civil year (month + 1) 1 + date - 1"

definition MakeDate :: "int \<Rightarrow> int \<Rightarrow> int" where
  "MakeDate day time = day * msPerDay + time"

definition LocalTime :: "host \<Rightarrow> int \<Rightarrow> int" where
  "LocalTime h t = t + LocalTZA h t True"

definition UTC :: "host \<Rightarrow> int \<Rightarrow> int" where
  "UTC h t = t - LocalTZA h t False"

text \<open>
  \<^verbatim>\<open>date.getDate()\<close> is the day of the month in local time. \<^verbatim>\<open>date.setDate(dt)\<close> takes
  the local time of the date, replaces its day of the month by \<open>dt\<close> and sets the date
  to the UTC time of that local time; the result is the new time value of a date whose
  time value was \<open>t\<close>.
\<close>

definition getDate :: "host \<Rightarrow> int \<Rightarrow> int" where
  "getDate h t = DateFromTime (LocalTime h t)"

definition setDate :: "host \<Rightarrow> int \<Rightarrow> int \<Rightarrow> int" where
  "setDate h dt t =
     UTC h (MakeDate
              (MakeDay (YearFromTime (LocalTime h t)) (MonthFromTime (LocalTime h t)) dt)
              (TimeWithinDay (LocalTime h t)))"

text \<open>
  \<^verbatim>\<open>date.toISOString()\<close>: the UTC time as \<^verbatim>\<open>YYYY-MM-DDTHH:mm:ss.sssZ\<close>, the year with
  four digits from 0 to 9999 and with a sign and six digits otherwise. \<open>pad w n\<close> is
  the last \<open>w\<close> decimal digits of \<open>n\<close>.
\<close>

definition digit :: "nat \<Rightarrow> code_unit" where
  "digit n = of_nat (48 + n)"

primrec pad :: "nat \<Rightarrow> nat \<Rightarrow> js_string" where
  "pad 0 n = []"
| "pad (Suc w) n = pad w (n div 10) @ [digit (n mod 10)]"

definition year_string :: "int \<Rightarrow> js_string" where
  "year_string y =
     (if 0 \<le> y \<and> y \<le> 9999 then pad 4 (nat y)
      else (if y < 0 then str ''-'' else str ''+'') @ pad 6 (nat \<bar>y\<bar>))"

definition toISOString :: "int \<Rightarrow> js_string" where
  "toISOString t =
     year_string (YearFromTime t) @ str ''-'' @
     pad 2 (nat (MonthFromTime t + 1)) @ str ''-'' @
     pad 2 (nat (DateFromTime t)) @ str ''T'' @
     pad 2 (nat (HourFromTime t)) @ str '':'' @
     pad 2 (nat (MinFromTime t)) @ str '':'' @
     pad 2 (nat (SecFromTime t)) @ str ''.'' @
     pad 3 (nat (msFromTime t)) @ str ''Z''"

section \<open>AnalyticsDashboard.tsx: the generator\<close>

record history_entry =
  date :: js_string
  views :: real

record AnalyticsData =
  pageViews :: real
  uniqueVisitors :: real
  bounceRate :: real
  avgTimeOnPage :: real
  lastUpdated :: js_string
  pageViewsHistory :: "history_entry list"

text \<open>\<^verbatim>\<open>Math.round(x)\<close>: the integer closest to \<open>x\<close>, the greater one of two equally close.\<close>

definition Math_round :: "real \<Rightarrow> int" where
  "Math_round x = \<lfloor>x + 1 / 2\<rfloor>"

definition historyDays :: nat where
  "historyDays = 7"

text \<open>
  The callback of \<^verbatim>\<open>Array.from({ length: historyDays }, (_, i) => ...)\<close>:
  \<^verbatim>\<open>const date = new Date(now);
  date.setDate(date.getDate() - (historyDays - 1 - i));
  const dateString = date.toISOString().split('T')[0]!;
  return { date: dateString, views: Math.floor(Math.random() * 500) + 100 };\<close>
  \<open>random k\<close> is the result of the \<open>k\<close>-th call of \<^verbatim>\<open>Math.random()\<close> since the generator
  was entered, the first being call 0; the callback for index \<open>i\<close> makes call \<open>i\<close>.
\<close>

definition history_entry_at :: "host \<Rightarrow> int \<Rightarrow> (nat \<Rightarrow> real) \<Rightarrow> nat \<Rightarrow> history_entry" where
  "history_entry_at h now random i =
     \<lparr>date =
        takeWhile (\<lambda>c. c \<noteq> ch CHR ''T'')
          (toISOString (setDate h (getDate h now - (int historyDays - 1 - int i)) now)),
      views = round_double h (of_int \<lfloor>round_double h (random i * 500)\<rfloor> + 100)\<rparr>"

text \<open>
  \<^verbatim>\<open>const totalViews = pageViewsHistory.reduce((sum, day) => sum + day.views, 0);
  return {
    pageViews: totalViews,
    uniqueVisitors: Math.floor(totalViews * (0.6 + Math.random() * 0.2)),
    bounceRate: Math.round((20 + Math.random() * 30) * 10) / 10,
    avgTimeOnPage: Math.round((45 + Math.random() * 180) * 10) / 10,
    lastUpdated: now.toISOString(),
    pageViewsHistory,
  };\<close>
  The literals 0.6 and 0.2 are the doubles nearest to 6/10 and 2/10; the other constants
  are integers. \<open>now\<close> is the time value of \<^verbatim>\<open>new Date()\<close>.
\<close>

definition generateFakeAnalytics :: "host \<Rightarrow> int \<Rightarrow> (nat \<Rightarrow> real) \<Rightarrow> AnalyticsData" where
  "generateFakeAnalytics h now random =
     (let rd = round_double h;
          pageViewsHistory = map (history_entry_at h now random) [0..<historyDays];
          totalViews = foldl (\<lambda>sum day. rd (sum + views day)) 0 pageViewsHistory
      in \<lparr>pageViews = totalViews,
          uniqueVisitors =
            of_int \<lfloor>rd (totalViews * rd (rd (6 / 10) + rd (random 7 * rd (2 / 10))))\<rfloor>,
          bounceRate = rd (of_int (Math_round (rd (rd (20 + rd (random 8 * 30)) * 10))) / 10),
          avgTimeOnPage = rd (of_int (Math_round (rd (rd (45 + rd (random 9 * 180)) * 10))) / 10),
          lastUpdated = toISOString now,
          pageViewsHistory = pageViewsHistory\<rparr>)"

text \<open>The object literals the generator returns, as JavaScript values.\<close>

definition history_entry_obj :: "history_entry \<Rightarrow> js_value" where
  "history_entry_obj e = JObj [(str ''date'', JStr (date e)), (str ''views'', JNum (views e))]"

definition AnalyticsData_obj :: "AnalyticsData \<Rightarrow> js_value" where
  "AnalyticsData_obj d =
     JObj [(str ''pageViews'', JNum (pageViews d)),
           (str ''uniqueVisitors'', JNum (uniqueVisitors d)),
           (str ''bounceRate'', JNum (bounceRate d)),
           (str ''avgTimeOnPage'', JNum (avgTimeOnPage d)),
           (str ''lastUpdated'', JStr (lastUpdated d)),
           (str ''pageViewsHistory'', JArr (map history_entry_obj (pageViewsHistory d)))]"

text \<open>
  Two hosts to evaluate the generator in: one on UTC with exact arithmetic, and one in
  New York in the autumn of 2020, where daylight saving time ended on the first of
  November at 06:00 UTC (02:00 local time): the adjustment is -4 hours before and -5 hours
  after.
\<close>

definition utc_host :: host where
  "utc_host = \<lparr>LocalTZA = (\<lambda>t isUTC. 0), round_double = (\<lambda>x. x)\<rparr>"

definition new_york_autumn_2020 :: "int \<Rightarrow> bool \<Rightarrow> int" where
  "new_york_autumn_2020 t isUTC =
     (if isUTC then (if t < 1604210400000 then - 14400000 else - 18000000)
      else (if t < 1604196000000 then - 14400000 else - 18000000))"

definition new_york_host :: host where
  "new_york_host = \<lparr>LocalTZA = new_york_autumn_2020, round_double = (\<lambda>x. x)\<rparr>"

section \<open>AnalyticsDashboard.tsx: the component\<close>

text \<open>
  JavaScript's truthiness, which \<^verbatim>\<open>if (x)\<close> and \<^verbatim>\<open>x || y\<close> test.
\<close>

definition truthy :: "js_value \<Rightarrow> bool" where
  "truthy v =
     (case v of
        JUndefined \<Rightarrow> False
      | JNull \<Rightarrow> False
      | JBool b \<Rightarrow> b
      | JNum x \<Rightarrow> x \<noteq> 0
      | JStr s \<Rightarrow> s \<noteq> []
      | JArr xs \<Rightarrow> True
      | JObj ps \<Rightarrow> True)"

text \<open>
  \<^verbatim>\<open>value?.analyticsData\<close>: undefined when \<open>value\<close> is null or undefined; the property
  of an object, undefined when it has none of that name; undefined for a string, a
  number, a boolean and an array, which have no property of that name.
\<close>

definition optional_analyticsData :: "js_value \<Rightarrow> js_value" where
  "optional_analyticsData v =
     (case v of
        JObj ps \<Rightarrow> (case map_of ps analyticsData_key of None \<Rightarrow> JUndefined | Some x \<Rightarrow> x)
      | _ \<Rightarrow> JUndefined)"

text \<open>The object literal \<^verbatim>\<open>{ analyticsData: d }\<close>.\<close>

definition wrapper :: "js_value \<Rightarrow> js_value" where
  "wrapper d = JObj [(analyticsData_key, d)]"

subsection \<open>Rendering\<close>

text \<open>
  The component function and the two components it uses, \<^verbatim>\<open>StatCard\<close> and \<^verbatim>\<open>Chart\<close>,
  read the properties of \<open>analyticsData\<close> and turn them into text. They trust the value
  to be a snapshot. What they make of a value that is none (the codec lets every value
  through that is stored under the key) is modelled as far as it decides whether the
  render returns or throws; the markup itself is not modelled, and neither are the
  item and the configuration, which are the host's.

  \<open>property_of v k\<close> is \<^verbatim>\<open>v.k\<close> for a value \<open>v\<close> that is neither null nor undefined and a name
  \<open>k\<close> among pageViews, uniqueVisitors, bounceRate, avgTimeOnPage, lastUpdated,
  pageViewsHistory, date and views: the own property of an object, and undefined for
  every other value (no prototype has a property of one of these names).
\<close>

definition property_of :: "js_value \<Rightarrow> js_string \<Rightarrow> js_value" where
  "property_of v k =
     (case v of
        JObj ps \<Rightarrow> (case map_of ps k of None \<Rightarrow> JUndefined | Some x \<Rightarrow> x)
      | _ \<Rightarrow> JUndefined)"

text \<open>
  The conversion of a value to a string or to a number (in a template literal, in
  \<^verbatim>\<open>seconds / 60\<close>, in \<^verbatim>\<open>Math.max\<close>, in \<^verbatim>\<open>new Date(x)\<close>) calls the methods
  \<^verbatim>\<open>valueOf\<close> and \<^verbatim>\<open>toString\<close> of an object. It throws a \<open>TypeError\<close> when neither
  gives a primitive value: for an object whose own property \<^verbatim>\<open>toString\<close> hides the
  inherited method (its value, from JSON, is no function, and the inherited \<^verbatim>\<open>valueOf\<close>
  returns the object itself). An array is converted by joining the conversions of its
  elements. \<open>converts v\<close>: the conversion of \<open>v\<close> returns.
\<close>

fun converts :: "js_value \<Rightarrow> bool" where
  "converts (JObj ps) = (str ''toString'' \<notin> fst ` set ps)"
| "converts (JArr xs) = list_all converts xs"
| "converts v = True"

text \<open>
  What React accepts between the tags of an element, \<^verbatim>\<open><div>{value}</div>\<close>: a string, a
  number, a boolean, null, undefined, and an array of these. For an object it throws an
  \<open>Error\<close> ("Objects are not valid as a React child").
\<close>

fun valid_child :: "js_value \<Rightarrow> bool" where
  "valid_child (JObj ps) = False"
| "valid_child (JArr xs) = list_all valid_child xs"
| "valid_child v = True"

text \<open>
  \<^verbatim>\<open>const Chart = ({ data }) => {
    const maxViews = Math.max(...data.map(d => d.views), 1);
    ...
    {data.map((day, index) => {
      const height = (day.views / maxViews) * chartHeight;
      const date = new Date(day.date);
      ... title={`${day.date}: ${day.views} views`} ... {day.views} ...\<close>
  \<^verbatim>\<open>data.map\<close> is a function only when \<open>data\<close> is an array; \<^verbatim>\<open>d.views\<close> throws when
  \<open>d\<close> is null or undefined.
\<close>

definition Chart :: "js_value \<Rightarrow> js_error + unit" where
  "Chart data =
     (case data of
        JArr days \<Rightarrow>
          if list_ex (\<lambda>d. d = JNull \<or> d = JUndefined) days then Inl TypeError
          else if list_all (\<lambda>d. converts (property_of d (str ''views'')) \<and>
                                converts (property_of d (str ''date''))) days
          then (if list_all (\<lambda>d. valid_child (property_of d (str ''views''))) days
                then Inr () else Inl Error)
          else Inl TypeError
      | _ \<Rightarrow> Inl TypeError)"

text \<open>
  What is on the screen: the text "Loading analytics...", or the dashboard with the
  figures of a snapshot and the refresh button, which is disabled or not.
\<close>

datatype view = LoadingText | Dashboard js_value bool

text \<open>
  The component function, as a function of its two state variables:
  \<^verbatim>\<open>if (!analyticsData) { return <div>Loading analytics...</div>; }
  ...
  <button onClick={refreshAnalytics} disabled={isLoading} ...>
  ... Last updated: {new Date(analyticsData.lastUpdated).toLocaleString()}
  <StatCard title="Page Views" value={analyticsData.pageViews} ... />
  <StatCard title="Unique Visitors" value={analyticsData.uniqueVisitors} ... />
  <StatCard title="Bounce Rate" value={`${analyticsData.bounceRate}%`} ... />
  <StatCard title="Avg. Time on Page" value={formatTime(analyticsData.avgTimeOnPage)} ... />
  <Chart data={analyticsData.pageViewsHistory} />\<close>
  \<^verbatim>\<open>StatCard\<close> shows a value that is a number as \<^verbatim>\<open>value.toLocaleString()\<close> and every
  other value as it is, as a child of a \<^verbatim>\<open>div\<close>. The conversions happen in the
  component function itself, before React renders the cards and then the chart.
\<close>

definition render :: "bool \<Rightarrow> js_value \<Rightarrow> js_error + view" where
  "render isLoading analyticsData =
     (if truthy analyticsData then
        (if converts (property_of analyticsData (str ''lastUpdated'')) \<and>
            converts (property_of analyticsData (str ''bounceRate'')) \<and>
            converts (property_of analyticsData (str ''avgTimeOnPage''))
         then
           (if valid_child (property_of analyticsData (str ''pageViews'')) \<and>
               valid_child (property_of analyticsData (str ''uniqueVisitors''))
            then
              (case Chart (property_of analyticsData (str ''pageViewsHistory'')) of
                 Inl e \<Rightarrow> Inl e
               | Inr u \<Rightarrow> Inr (Dashboard analyticsData isLoading))
            else Inl Error)
         else Inl TypeError)
      else Inr LoadingText)"

subsection \<open>State and events\<close>

text \<open>
  The state of the component: its two state variables, the pending callbacks of
  \<^verbatim>\<open>setTimeout\<close> (the time each is due at, in the order of the calls), what the
  component has done to the outside (the arguments of its calls of \<^verbatim>\<open>setValue\<close>, the
  oldest first, and the number of its calls of \<^verbatim>\<open>generateFakeAnalytics\<close>), and what
  React has put on the screen when it last rendered the component, or the error that
  render has thrown.

  \<^verbatim>\<open>setIsLoading\<close> and \<^verbatim>\<open>setAnalyticsData\<close> change a state variable at once, but not the
  screen: React renders the component again later, and until then the screen, the
  refresh button with it, is what the last render made it. When that happens is React's
  choice, so rendering is an event of its own below.

  The hooks \<^verbatim>\<open>useValue\<close>, \<^verbatim>\<open>useItemInfo\<close> and \<^verbatim>\<open>useConfig\<close> are the host binding's;
  \<open>value\<close> below is the first component of what \<^verbatim>\<open>useValue()\<close> returns when the
  component mounts: null, an object, or whatever else the binding hands over (the string
  "invalidValue" included).
\<close>

record dashboard =
  isLoading :: bool
  analyticsData :: js_value
  timers :: "int list"
  writes :: "js_value list"
  generated :: nat
  screen :: "js_error + view"

text \<open>
  \<^verbatim>\<open>const [isLoading, setIsLoading] = useState(false);
  const [analyticsData, setAnalyticsData] = useState<AnalyticsData | null>(
    value?.analyticsData || null);\<close>
  and the first render, with these initial values.
\<close>

definition initial_render :: "js_value \<Rightarrow> dashboard" where
  "initial_render v =
     \<lparr>isLoading = False,
      analyticsData = (if truthy (optional_analyticsData v) then optional_analyticsData v else JNull),
      timers = [], writes = [], generated = 0,
      screen = render False
        (if truthy (optional_analyticsData v) then optional_analyticsData v else JNull)\<rparr>"

text \<open>
  React renders the component again, with the state variables as they are. A component
  whose render has thrown is removed from the screen (nothing in the sources catches the
  error) and not rendered again.
\<close>

definition rerender :: "dashboard \<Rightarrow> dashboard" where
  "rerender s =
     (case screen s of
        Inl e \<Rightarrow> s
      | Inr shown \<Rightarrow> s\<lparr>screen := render (isLoading s) (analyticsData s)\<rparr>)"

text \<open>
  \<^verbatim>\<open>useEffect(() => {
    if (value?.analyticsData) {
      setAnalyticsData(value.analyticsData);
    } else {
      const fakeData = generateFakeAnalytics();
      setAnalyticsData(fakeData);
      setValue({ analyticsData: fakeData });
    }
  }, []);\<close>
  The dependency list is empty: the effect runs once, when the component has mounted, at
  the time \<open>now\<close> and with the outcomes \<open>random\<close> of \<^verbatim>\<open>Math.random()\<close>. (React's strict
  mode, which runs an effect a second time in a development build, is not modelled.)
\<close>

definition load_effect :: "host \<Rightarrow> js_value \<Rightarrow> int \<Rightarrow> (nat \<Rightarrow> real) \<Rightarrow> dashboard \<Rightarrow> dashboard" where
  "load_effect h v now random s =
     (if truthy (optional_analyticsData v) then s\<lparr>analyticsData := optional_analyticsData v\<rparr>
      else
        (let fakeData = AnalyticsData_obj (generateFakeAnalytics h now random)
         in s\<lparr>analyticsData := fakeData,
              writes := writes s @ [wrapper fakeData],
              generated := Suc (generated s)\<rparr>))"

text \<open>
  Mounting: the first render; when it has not thrown, the effect, and the render that
  the effect's \<^verbatim>\<open>setAnalyticsData\<close> asks for. (Until that render the screen has no
  refresh button, or the effect has changed nothing: no event in between would make a
  difference.) When the first render throws, the component is not mounted and its
  effect does not run.
\<close>

definition mount :: "host \<Rightarrow> js_value \<Rightarrow> int \<Rightarrow> (nat \<Rightarrow> real) \<Rightarrow> dashboard" where
  "mount h v now random =
     (case screen (initial_render v) of
        Inl e \<Rightarrow> initial_render v
      | Inr shown \<Rightarrow> rerender (load_effect h v now random (initial_render v)))"

text \<open>
  \<^verbatim>\<open>const refreshAnalytics = useCallback(() => {
    setIsLoading(true);
    setTimeout(() => {
      const newData = generateFakeAnalytics();
      setAnalyticsData(newData);
      setValue({ analyticsData: newData });
      setIsLoading(false);
    }, 800);
  }, [setValue]);\<close>
  called at the time \<open>now\<close>; the callback runs at a time \<open>now\<close> of its own. Neither tests
  whether a refresh is pending.
\<close>

definition refreshAnalytics :: "int \<Rightarrow> dashboard \<Rightarrow> dashboard" where
  "refreshAnalytics now s = s\<lparr>isLoading := True, timers := timers s @ [now + 800]\<rparr>"

definition timeout_callback :: "host \<Rightarrow> int \<Rightarrow> (nat \<Rightarrow> real) \<Rightarrow> dashboard \<Rightarrow> dashboard" where
  "timeout_callback h now random s =
     (let newData = AnalyticsData_obj (generateFakeAnalytics h now random)
      in s\<lparr>analyticsData := newData,
           writes := writes s @ [wrapper newData],
           isLoading := False,
           generated := Suc (generated s)\<rparr>)"

text \<open>
  The button is the only caller of \<^verbatim>\<open>refreshAnalytics\<close>. A click at the time \<open>now\<close>
  reaches it when the button is on the screen and not disabled there, and does nothing
  otherwise. What counts is the screen as React last rendered it, not the state
  variable \<open>isLoading\<close>.
\<close>

definition click_refresh :: "int \<Rightarrow> dashboard \<Rightarrow> dashboard" where
  "click_refresh now s =
     (case screen s of
        Inr (Dashboard shown disabled) \<Rightarrow> if disabled then s else refreshAnalytics now s
      | _ \<Rightarrow> s)"

text \<open>
  The host's timer: at the time \<open>now\<close> it runs the oldest pending callback if that is
  due, and nothing if none is.
\<close>

definition run_timer :: "host \<Rightarrow> int \<Rightarrow> (nat \<Rightarrow> real) \<Rightarrow> dashboard \<Rightarrow> dashboard" where
  "run_timer h now random s =
     (case timers s of
        [] \<Rightarrow> s
      | due # rest \<Rightarrow>
          if due \<le> now then timeout_callback h now random (s\<lparr>timers := rest\<rparr>) else s)"

text \<open>
  What happens to a mounted component: the user clicks the refresh button, the host's
  timer runs, or React renders the component again; the first two at a time, the timer
  with the outcomes of \<^verbatim>\<open>Math.random()\<close>.
\<close>

datatype event = Click int | Timer int "nat \<Rightarrow> real" | Render

fun step :: "host \<Rightarrow> dashboard \<Rightarrow> event \<Rightarrow> dashboard" where
  "step h s (Click now) = click_refresh now s"
| "step h s (Timer now random) = run_timer h now random s"
| "step h s Render = rerender s"

definition run :: "host \<Rightarrow> dashboard \<Rightarrow> event list \<Rightarrow> dashboard" where
  "run h s es = foldl (step h) s es"

text \<open>
  The specification's states of the controller, as the component function makes them of
  the two state variables: no snapshot and idle, no snapshot and loading, a snapshot
  displayed, and a snapshot displayed while a refresh is pending; or the error that
  render throws.
\<close>

datatype displayState = Empty | Loading | Ready js_value | Refreshing js_value

definition display :: "dashboard \<Rightarrow> js_error + displayState" where
  "display s =
     (case render (isLoading s) (analyticsData s) of
        Inl e \<Rightarrow> Inl e
      | Inr LoadingText \<Rightarrow> Inr (if isLoading s then Loading else Empty)
      | Inr (Dashboard shown disabled) \<Rightarrow> Inr (if disabled then Refreshing shown else Ready shown))"

text \<open>
  The events that leave a refresh alone that is due at the time \<open>due\<close>: clicks, renders,
  and the timer before that time.
\<close>

fun quiet :: "int \<Rightarrow> event \<Rightarrow> bool" where
  "quiet due (Click now) = True"
| "quiet due (Timer now random) = (now < due)"
| "quiet due Render = True"

section \<open>The host binding: Encode\<close>

text \<open>
  Modelled from the spec: Encode, the serialisation of the wrapper object to the string
  that is handed to the host. It belongs to the host binding (CustomElementContext, which
  provides \<^verbatim>\<open>useValue\<close> and its \<^verbatim>\<open>setValue\<close>), which is not among the sources. The
  specification says of it: "total, serializes the wrapper object losslessly; must
  round-trip through Decode back to an equal value whenever analyticsData is itself a
  well-formed AnalyticsSnapshot or null". Decode reads JSON, so Encode is modelled as
  the writer of JSON that JavaScript has, \<^verbatim>\<open>JSON.stringify\<close> with one argument:
  no white space, the properties of an object in their order, a string quoted with the
  escapes of QuoteJSONString, a property whose value is undefined left out, an
  undefined array element written as null.

  One thing differs from JavaScript, since numbers are real numbers here: a number is
  written with all its decimal places (every double has at most 1074 of them) and
  never with an exponent, where JavaScript writes the shortest decimal that reads back
  as the same double. A real number with no finite decimal expansion, which is no
  double, is written as null, as JavaScript writes the numbers that are not finite.
\<close>

text \<open>The decimal digits of a natural number, without leading zeros.\<close>

fun dec :: "nat \<Rightarrow> js_string" where
  "dec n = (if n < 10 then [digit n] else dec (n div 10) @ [digit (n mod 10)])"

declare dec.simps [simp del]

text \<open>
  The number of decimal places of a number that is not negative: the least \<open>e\<close>, up to
  1074, with \<open>x * 10 ^ e\<close> an integer.
\<close>

fun places_from :: "nat \<Rightarrow> nat \<Rightarrow> real \<Rightarrow> nat option" where
  "places_from 0 e x = None"
| "places_from (Suc fuel) e x =
     (if of_int \<lfloor>x * 10 ^ e\<rfloor> = x * 10 ^ e then Some e else places_from fuel (Suc e) x)"

definition double_places :: nat where
  "double_places = 1074"

definition decimal_places :: "real \<Rightarrow> nat option" where
  "decimal_places x = places_from (Suc double_places) 0 x"

definition unsigned_toString :: "real \<Rightarrow> js_string" where
  "unsigned_toString x =
     (case decimal_places x of
        None \<Rightarrow> str ''null''
      | Some e \<Rightarrow>
          dec (nat \<lfloor>x * 10 ^ e\<rfloor> div 10 ^ e) @
          (if e = 0 then [] else ch CHR ''.'' # pad e (nat \<lfloor>x * 10 ^ e\<rfloor> mod 10 ^ e)))"

definition Number_toString :: "real \<Rightarrow> js_string" where
  "Number_toString x =
     (if x < 0 then ch CHR ''-'' # unsigned_toString (- x) else unsigned_toString x)"

text \<open>
  QuoteJSONString: the code units between quotation marks; the quotation mark, the
  backslash and the code units below 0x20 escaped, and a surrogate that is not half of a
  pair of a leading and a trailing one escaped with u and four hexadecimal digits in
  lower case.
\<close>

definition hex_digit :: "nat \<Rightarrow> code_unit" where
  "hex_digit n = (if n < 10 then of_nat (48 + n) else of_nat (87 + n))"

definition unicode_escape :: "code_unit \<Rightarrow> js_string" where
  "unicode_escape c =
     [0x5C, ch CHR ''u'', hex_digit (unat c div 4096), hex_digit (unat c div 256 mod 16),
      hex_digit (unat c div 16 mod 16), hex_digit (unat c mod 16)]"

definition is_leading_surrogate :: "code_unit \<Rightarrow> bool" where
  "is_leading_surrogate c = (0xD800 \<le> c \<and> c \<le> 0xDBFF)"

definition is_trailing_surrogate :: "code_unit \<Rightarrow> bool" where
  "is_trailing_surrogate c = (0xDC00 \<le> c \<and> c \<le> 0xDFFF)"

definition quote_unit :: "code_unit \<Rightarrow> js_string" where
  "quote_unit c =
     (if c = 0x08 then [0x5C, ch CHR ''b'']
      else if c = 0x09 then [0x5C, ch CHR ''t'']
      else if c = 0x0A then [0x5C, ch CHR ''n'']
      else if c = 0x0C then [0x5C, ch CHR ''f'']
      else if c = 0x0D then [0x5C, ch CHR ''r'']
      else if c = 0x22 then [0x5C, 0x22]
      else if c = 0x5C then [0x5C, 0x5C]
      else if c < 0x20 \<or> is_leading_surrogate c \<or> is_trailing_surrogate c then unicode_escape c
      else [c])"

fun quote_units :: "js_string \<Rightarrow> js_string" where
  "quote_units [] = []"
| "quote_units [c] = quote_unit c"
| "quote_units (c # d # cs) =
     (if is_leading_surrogate c \<and> is_trailing_surrogate d then c # d # quote_units cs
      else quote_unit c @ quote_units (d # cs))"

definition QuoteJSONString :: "js_string \<Rightarrow> js_string" where
  "QuoteJSONString s = 0x22 # quote_units s @ [0x22]"

fun separate :: "'a \<Rightarrow> 'a list list \<Rightarrow> 'a list" where
  "separate c [] = []"
| "separate c [x] = x"
| "separate c (x # y # ys) = x @ c # separate c (y # ys)"

fun stringify :: "js_value \<Rightarrow> js_string" where
  "stringify JUndefined = str ''null''"
| "stringify JNull = str ''null''"
| "stringify (JBool b) = (if b then str ''true'' else str ''false'')"
| "stringify (JNum x) = Number_toString x"
| "stringify (JStr s) = QuoteJSONString s"
| "stringify (JArr xs) = ch CHR ''['' # separate (ch CHR '','') (map stringify xs) @ [ch CHR '']'']"
| "stringify (JObj ps) =
     ch CHR ''{'' #
     separate (ch CHR '','')
       (map (\<lambda>(k, v). QuoteJSONString k @ ch CHR '':'' # stringify v)
          (filter (\<lambda>(k, v). v \<noteq> JUndefined) ps)) @
     [ch CHR ''}'']"

text \<open>
  Modelled from the spec: Encode(value: PersistedValue) \<open>\<rightarrow>\<close> string.
\<close>

definition Encode :: "js_value \<Rightarrow> js_string" where
  "Encode v = stringify v"

text \<open>
  A well-formed snapshot: an object of the shape of \<open>AnalyticsData\<close> whose numbers are
  doubles. (The specification asks more of some of the numbers, that they be integers
  and not negative; the round trip does not need it.)
\<close>

definition well_formed :: "AnalyticsData \<Rightarrow> bool" where
  "well_formed d =
     (is_double (pageViews d) \<and> is_double (uniqueVisitors d) \<and> is_double (bounceRate d) \<and>
      is_double (avgTimeOnPage d) \<and> list_all (\<lambda>e. is_double (views e)) (pageViewsHistory d))"

definition example_snapshot :: AnalyticsData where
  "example_snapshot =
     \<lparr>pageViews = 350, uniqueVisitors = 245, bounceRate = 71 / 2, avgTimeOnPage = 135,
      lastUpdated = str ''2020-11-02T00:30:00.000Z'',
      pageViewsHistory = [\<lparr>date = str ''2020-11-02'', views = 350\<rparr>]\<rparr>"

text \<open>
  For the proof of the round trip: the values that have a serialisation that reads back
  (no undefined, every number with a finite decimal expansion, no key twice in an
  object), the tokens of the serialisation of a value, the texts that may follow a
  value in a serialisation, and the parser continued after a reduction.
\<close>

fun serialisable :: "js_value \<Rightarrow> bool" where
  "serialisable JUndefined = False"
| "serialisable JNull = True"
| "serialisable (JBool b) = True"
| "serialisable (JNum x) = (decimal_places \<bar>x\<bar> \<noteq> None)"
| "serialisable (JStr s) = True"
| "serialisable (JArr xs) = list_all serialisable xs"
| "serialisable (JObj ps) = (distinct (map fst ps) \<and> list_all (\<lambda>(k, v). serialisable v) ps)"

fun tokens_of :: "js_value \<Rightarrow> token list" where
  "tokens_of (JArr xs) = LBracket # separate Comma (map tokens_of xs) @ [RBracket]"
| "tokens_of (JObj ps) =
     LBrace # separate Comma (map (\<lambda>(k, v). Lit (JStr k) # Colon # tokens_of v) ps) @ [RBrace]"
| "tokens_of v = [Lit v]"

definition delimited :: "js_string \<Rightarrow> bool" where
  "delimited rest = (rest = [] \<or> hd rest = ch CHR '','' \<or> hd rest = ch CHR '']'' \<or> hd rest = ch CHR ''}'')"

definition continue :: "(expect \<times> frame list) option \<Rightarrow> token list \<Rightarrow> js_value option" where
  "continue r ts = (case r of None \<Rightarrow> None | Some (e, st) \<Rightarrow> parse_tokens e st ts)"

text \<open>
  An invariant of the component, for the proofs below: the last value written, if any,
  is the wrapper of the snapshot that the state variable holds, a generated one.
\<close>

definition writes_match :: "dashboard \<Rightarrow> bool" where
  "writes_match s =
     (writes s = [] \<or>
      (\<exists>d. analyticsData s = AnalyticsData_obj d \<and> last (writes s) = wrapper (analyticsData s)))"

section \<open>Properties of value.ts\<close>

lemma parseValue_Some:
  "parseValue (Some s) =
     Inr (case JSON_parse s of
            Inl e \<Rightarrow> invalidValue
          | Inr v \<Rightarrow> if has_analyticsData v then v else invalidValue)"
  by (cases "JSON_parse s"; cases "projr (JSON_parse s)")
     (auto simp: parseValue_def try_catch_def isValidValue_def has_analyticsData_def)

lemma has_analyticsData_not_invalidValue: "has_analyticsData v \<Longrightarrow> v \<noteq> invalidValue"
  by (auto simp: has_analyticsData_def invalidValue_def)

lemma parse_empty_object: "JSON_parse (str ''{}'') = Inr (JObj [])"
  by code_simp

lemma parse_not_json: "JSON_parse (str ''not json'') = Inl SyntaxError"
  by code_simp

lemma parse_analyticsData_null:
  "JSON_parse (str ''{\"analyticsData\": null}'') = Inr (JObj [(analyticsData_key, JNull)])"
  by code_simp

lemma parse_analyticsData_number:
  "JSON_parse (str ''{\"analyticsData\": 5}'') = Inr (JObj [(analyticsData_key, JNum 5)])"
  by code_simp

lemma parse_primitives:
  "JSON_parse (str ''null'') = Inr JNull"
  "JSON_parse (str ''42'') = Inr (JNum 42)"
  "JSON_parse (str ''true'') = Inr (JBool True)"
  "JSON_parse (str ''\"abc\"'') = Inr (JStr (str ''abc''))"
  "JSON_parse (str ''[1]'') = Inr (JArr [JNum 1])"
  by code_simp+

text \<open>
  C2: parseValue(null) is null. For a string, parseValue returns "invalidValue" exactly
  when JSON.parse rejects the string or the parsed result has no property named
  analyticsData, and returns the parsed result as it is otherwise, whatever stands under
  analyticsData (null and a number, for instance): the value is not looked at.
\<close>

theorem parseValue_presence_check_only:
  "parseValue None = Inr JNull \<and>
   (parseValue (Some s) = Inr invalidValue) =
     (case JSON_parse s of Inl e \<Rightarrow> True | Inr v \<Rightarrow> \<not> has_analyticsData v) \<and>
   parseValue (Some s) =
     Inr (case JSON_parse s of
            Inl e \<Rightarrow> invalidValue
          | Inr v \<Rightarrow> if has_analyticsData v then v else invalidValue) \<and>
   has_analyticsData (JObj ((analyticsData_key, x) # ps)) \<and>
   parseValue (Some (str ''{}'')) = Inr invalidValue \<and>
   parseValue (Some (str ''not json'')) = Inr invalidValue \<and>
   parseValue (Some (str ''{\"analyticsData\": null}'')) = Inr (JObj [(analyticsData_key, JNull)]) \<and>
   parseValue (Some (str ''{\"analyticsData\": 5}'')) = Inr (JObj [(analyticsData_key, JNum 5)])"
proof -
  have null: "parseValue None = Inr JNull"
    by (simp add: parseValue_def)
  have invalid: "(parseValue (Some s) = Inr invalidValue) =
     (case JSON_parse s of Inl e \<Rightarrow> True | Inr v \<Rightarrow> \<not> has_analyticsData v)"
    using has_analyticsData_not_invalidValue
    by (auto simp: parseValue_Some split: sum.splits)
  have present: "has_analyticsData (JObj ((analyticsData_key, x) # ps))"
    by (simp add: has_analyticsData_def)
  have examples:
    "parseValue (Some (str ''{}'')) = Inr invalidValue"
    "parseValue (Some (str ''not json'')) = Inr invalidValue"
    "parseValue (Some (str ''{\"analyticsData\": null}'')) = Inr (JObj [(analyticsData_key, JNull)])"
    "parseValue (Some (str ''{\"analyticsData\": 5}'')) = Inr (JObj [(analyticsData_key, JNum 5)])"
    by (simp_all add: parseValue_Some parse_empty_object parse_not_json
        parse_analyticsData_null parse_analyticsData_number has_analyticsData_def)
  show ?thesis
    using null invalid parseValue_Some [of s] present examples by blast
qed

text \<open>
  C9: parseValue returns for every input, null or a string, and never throws: an error
  of JSON.parse and an error of the membership test both give "invalidValue". Where the
  parsed result is a primitive (null, a number, a boolean, a string) the membership test
  raises a TypeError; the error is caught and the result is "invalidValue".
\<close>

theorem parseValue_never_throws:
  "(\<exists>r. parseValue input = Inr r) \<and> (\<forall>e. parseValue input \<noteq> Inl e) \<and>
   parseValue (Some s) =
     Inr (case JSON_parse s of
            Inl e \<Rightarrow> invalidValue
          | Inr v \<Rightarrow>
              (case isValidValue v of
                 Inl e \<Rightarrow> invalidValue
               | Inr valid \<Rightarrow> if valid then v else invalidValue)) \<and>
   isValidValue JNull = Inl TypeError \<and>
   parseValue (Some (str ''null'')) = Inr invalidValue \<and>
   isValidValue (JNum 42) = Inl TypeError \<and>
   parseValue (Some (str ''42'')) = Inr invalidValue \<and>
   isValidValue (JBool True) = Inl TypeError \<and>
   parseValue (Some (str ''true'')) = Inr invalidValue \<and>
   isValidValue (JStr (str ''abc'')) = Inl TypeError \<and>
   parseValue (Some (str ''\"abc\"'')) = Inr invalidValue \<and>
   parseValue (Some (str ''not json'')) = Inr invalidValue"
proof -
  have total: "\<exists>r. parseValue input = Inr r"
  proof (cases input)
    case None
    then show ?thesis by (simp add: parseValue_def)
  next
    case (Some s)
    then show ?thesis by (simp add: parseValue_Some)
  qed
  then have no_error: "\<forall>e. parseValue input \<noteq> Inl e"
    by auto
  have prim: "parseValue (Some (str ''null'')) = Inr invalidValue"
    "parseValue (Some (str ''42'')) = Inr invalidValue"
    "parseValue (Some (str ''true'')) = Inr invalidValue"
    "parseValue (Some (str ''\"abc\"'')) = Inr invalidValue"
    "parseValue (Some (str ''not json'')) = Inr invalidValue"
    by (simp_all add: parseValue_Some parse_primitives parse_not_json has_analyticsData_def)
  have caught: "parseValue (Some s) =
     Inr (case JSON_parse s of
            Inl e \<Rightarrow> invalidValue
          | Inr v \<Rightarrow>
              (case isValidValue v of
                 Inl e \<Rightarrow> invalidValue
               | Inr valid \<Rightarrow> if valid then v else invalidValue))"
    by (simp add: parseValue_def try_catch_def split: sum.splits)
  have raised: "isValidValue JNull = Inl TypeError" "isValidValue (JNum 42) = Inl TypeError"
    "isValidValue (JBool True) = Inl TypeError" "isValidValue (JStr (str ''abc'')) = Inl TypeError"
    by (simp_all add: isValidValue_def)
  show ?thesis
    using total no_error caught prim raised by blast
qed

section \<open>Properties of config.ts\<close>

text \<open>
  C6: isConfig returns false if and only if its argument is null; every non-null object,
  the empty object included, is accepted, whatever its fields are.
\<close>

theorem isConfig_false_iff_null:
  "(isConfig v = False) = (v = None) \<and> isConfig (Some []) = True \<and> isConfig (Some obj) = True"
  by (simp add: isConfig_def)

section \<open>Properties of the generator\<close>

lemma is_double_int: "\<bar>n\<bar> < 2 ^ 53 \<Longrightarrow> is_double (of_int n)"
  unfolding is_double_def by (rule exI [of _ n], rule exI [of _ 0]) simp

lemma is_double_quarters: "\<bar>n\<bar> < 2 ^ 53 \<Longrightarrow> is_double (of_int n / 4)"
  unfolding is_double_def by (rule exI [of _ n], rule exI [of _ "- 2"]) (simp add: power_int_minus field_simps)

lemma rd_fix: "double_rounding rd \<Longrightarrow> is_double x \<Longrightarrow> rd x = x"
  by (simp add: double_rounding_def)

lemma rd_int: "double_rounding rd \<Longrightarrow> \<bar>n\<bar> < 2 ^ 53 \<Longrightarrow> rd (of_int n) = of_int n"
  by (simp add: rd_fix is_double_int)

lemma rd_between:
  assumes "double_rounding rd" "is_double a" "is_double b" "a \<le> x" "x \<le> b"
  shows "a \<le> rd x \<and> rd x \<le> b"
proof -
  have "mono rd" using assms(1) by (simp add: double_rounding_def)
  then have "rd a \<le> rd x" "rd x \<le> rd b"
    using assms(4,5) by (auto dest: monoD)
  then show ?thesis
    using assms(1-3) by (simp add: rd_fix)
qed

lemma is_double_numerals:
  "is_double 0" "is_double 1" "is_double 500" "is_double (1 / 4)" "is_double (1 / 2)" "is_double (3 / 4)"
  using is_double_int [of 0] is_double_int [of 1] is_double_int [of 500]
    is_double_quarters [of 1] is_double_quarters [of 2] is_double_quarters [of 3]
  by simp_all

lemma views_integer:
  assumes dr: "double_rounding rd" and r: "0 \<le> r" "r < 1"
  shows "\<exists>n :: int. 100 \<le> n \<and> n \<le> 600 \<and> rd (of_int \<lfloor>rd (r * 500)\<rfloor> + 100) = of_int n"
proof -
  have "0 \<le> rd (r * 500) \<and> rd (r * 500) \<le> 500"
    using r by (intro rd_between [OF dr] is_double_numerals) simp_all
  then have fl: "0 \<le> \<lfloor>rd (r * 500)\<rfloor>" "\<lfloor>rd (r * 500)\<rfloor> \<le> 500"
    by (simp_all add: floor_le_iff)
  have "rd (of_int (\<lfloor>rd (r * 500)\<rfloor> + 100)) = of_int (\<lfloor>rd (r * 500)\<rfloor> + 100)"
    using fl by (intro rd_int [OF dr]) simp
  then show ?thesis
    using fl by (intro exI [of _ "\<lfloor>rd (r * 500)\<rfloor> + 100"]) simp
qed

lemma total_integer:
  assumes dr: "double_rounding rd"
    and xs: "\<forall>x \<in> set xs. \<exists>n :: int. 100 \<le> n \<and> n \<le> 600 \<and> views x = of_int n"
    and k: "0 \<le> k" "k + 600 * int (length xs) < 2 ^ 53"
  shows "\<exists>N :: int. k + 100 * int (length xs) \<le> N \<and> N \<le> k + 600 * int (length xs) \<and>
           foldl (\<lambda>sum day. rd (sum + views day)) (of_int k) xs = of_int N"
  using xs k
proof (induction xs arbitrary: k)
  case Nil
  then show ?case by simp
next
  case (Cons x xs)
  from Cons.prems(1) obtain n :: int where n: "100 \<le> n" "n \<le> 600" "views x = of_int n"
    by auto
  have "rd (of_int (k + n)) = of_int (k + n)"
    using Cons.prems(2,3) n by (intro rd_int [OF dr]) simp
  then have step: "rd (of_int k + views x) = of_int (k + n)"
    by (simp add: n)
  have "\<exists>N :: int. (k + n) + 100 * int (length xs) \<le> N \<and> N \<le> (k + n) + 600 * int (length xs) \<and>
           foldl (\<lambda>sum day. rd (sum + views day)) (of_int (k + n)) xs = of_int N"
    using Cons.prems n by (intro Cons.IH) auto
  then obtain N :: int where N: "(k + n) + 100 * int (length xs) \<le> N"
    "N \<le> (k + n) + 600 * int (length xs)"
    "foldl (\<lambda>sum day. rd (sum + views day)) (of_int (k + n)) xs = of_int N"
    by blast
  have "foldl (\<lambda>sum day. rd (sum + views day)) (of_int k) (x # xs) = of_int N"
    using N(3) step by (simp only: foldl.simps)
  then show ?case
    using N(1,2) n(1,2) by (intro exI [of _ N]) simp
qed

lemma unique_le_total:
  assumes dr: "double_rounding rd" and r: "0 \<le> r" "r < 1" and T: "0 \<le> T" "T < 2 ^ 53"
  shows "0 \<le> \<lfloor>rd (of_int T * rd (rd (6 / 10) + rd (r * rd (2 / 10))))\<rfloor> \<and>
         \<lfloor>rd (of_int T * rd (rd (6 / 10) + rd (r * rd (2 / 10))))\<rfloor> \<le> T"
proof -
  have c2: "0 \<le> rd (2 / 10) \<and> rd (2 / 10) \<le> 1 / 4"
    by (intro rd_between [OF dr] is_double_numerals) simp_all
  have "0 \<le> r * rd (2 / 10)"
    using r c2 by simp
  moreover have "r * rd (2 / 10) \<le> 1 * (1 / 4)"
    using r c2 by (intro mult_mono) simp_all
  ultimately have p: "0 \<le> rd (r * rd (2 / 10)) \<and> rd (r * rd (2 / 10)) \<le> 1 / 4"
    by (intro rd_between [OF dr] is_double_numerals) simp_all
  have c6: "1 / 2 \<le> rd (6 / 10) \<and> rd (6 / 10) \<le> 3 / 4"
    by (intro rd_between [OF dr] is_double_numerals) simp_all
  have f: "0 \<le> rd (rd (6 / 10) + rd (r * rd (2 / 10))) \<and> rd (rd (6 / 10) + rd (r * rd (2 / 10))) \<le> 1"
    using p c6 by (intro rd_between [OF dr] is_double_numerals) simp_all
  have "0 \<le> of_int T * rd (rd (6 / 10) + rd (r * rd (2 / 10)))"
    using T f by simp
  moreover have "of_int T * rd (rd (6 / 10) + rd (r * rd (2 / 10))) \<le> of_int T * 1"
    using T f by (intro mult_left_mono) simp_all
  ultimately have "of_int 0 \<le> rd (of_int T * rd (rd (6 / 10) + rd (r * rd (2 / 10)))) \<and>
      rd (of_int T * rd (rd (6 / 10) + rd (r * rd (2 / 10)))) \<le> of_int T"
    using T by (intro rd_between [OF dr] is_double_int) simp_all
  then show ?thesis
    by (simp add: floor_le_iff le_floor_iff)
qed


lemma pageViewsHistory_generate:
  "pageViewsHistory (generateFakeAnalytics h now random) = map (history_entry_at h now random) [0..<historyDays]"
  by (simp add: generateFakeAnalytics_def Let_def)

lemma pageViews_generate:
  "pageViews (generateFakeAnalytics h now random) =
     foldl (\<lambda>sum day. round_double h (sum + views day)) 0
       (map (history_entry_at h now random) [0..<historyDays])"
  by (simp add: generateFakeAnalytics_def Let_def)

lemma uniqueVisitors_generate:
  "uniqueVisitors (generateFakeAnalytics h now random) =
     of_int \<lfloor>round_double h (pageViews (generateFakeAnalytics h now random) *
       round_double h (round_double h (6 / 10) + round_double h (random 7 * round_double h (2 / 10))))\<rfloor>"
  by (simp add: generateFakeAnalytics_def Let_def)

lemma length_pageViewsHistory:
  "length (pageViewsHistory (generateFakeAnalytics h now random)) = 7"
  by (simp add: pageViewsHistory_generate historyDays_def)

lemma views_history_entry:
  assumes "double_rounding (round_double h)" "\<forall>i. 0 \<le> random i \<and> random i < 1"
  shows "\<exists>n :: int. 100 \<le> n \<and> n \<le> 600 \<and> views (history_entry_at h now random i) = of_int n"
  using views_integer [OF assms(1), of "random i"] assms(2)
  by (simp add: history_entry_at_def)

lemma pageViews_integer:
  assumes "double_rounding (round_double h)" "\<forall>i. 0 \<le> random i \<and> random i < 1"
  shows "\<exists>N :: int. 700 \<le> N \<and> N \<le> 4200 \<and> pageViews (generateFakeAnalytics h now random) = of_int N"
proof -
  let ?xs = "map (history_entry_at h now random) [0..<historyDays]"
  have "\<forall>x \<in> set ?xs. \<exists>n :: int. 100 \<le> n \<and> n \<le> 600 \<and> views x = of_int n"
    using views_history_entry [OF assms] by auto
  then have "\<exists>N :: int. 0 + 100 * int (length ?xs) \<le> N \<and> N \<le> 0 + 600 * int (length ?xs) \<and>
           foldl (\<lambda>sum day. round_double h (sum + views day)) (of_int 0) ?xs = of_int N"
    by (intro total_integer [OF assms(1)]) (simp_all add: historyDays_def)
  then show ?thesis
    by (simp add: pageViews_generate historyDays_def)
qed

text \<open>
  C7: whatever \<^verbatim>\<open>Math.random()\<close> returns (numbers from 0 up to, not including, 1), the
  snapshot generated has an integer uniqueVisitors with 0 \<open>\<le>\<close> uniqueVisitors \<open>\<le>\<close> pageViews.
  The arithmetic is floating point: the property holds for every rounding that is
  monotone and leaves doubles unchanged.
\<close>

theorem uniqueVisitors_le_pageViews:
  assumes "double_rounding (round_double h)" and "\<forall>i. 0 \<le> random i \<and> random i < 1"
  shows "uniqueVisitors (generateFakeAnalytics h now random) \<in> \<int> \<and>
         0 \<le> uniqueVisitors (generateFakeAnalytics h now random) \<and>
         uniqueVisitors (generateFakeAnalytics h now random) \<le> pageViews (generateFakeAnalytics h now random)"
proof -
  obtain N :: int where N: "700 \<le> N" "N \<le> 4200"
    "pageViews (generateFakeAnalytics h now random) = of_int N"
    using pageViews_integer [OF assms] by blast
  have "0 \<le> random 7" "random 7 < 1"
    using assms(2) by simp_all
  then have "0 \<le> \<lfloor>round_double h (of_int N * round_double h (round_double h (6 / 10) + round_double h (random 7 * round_double h (2 / 10))))\<rfloor> \<and>
         \<lfloor>round_double h (of_int N * round_double h (round_double h (6 / 10) + round_double h (random 7 * round_double h (2 / 10))))\<rfloor> \<le> N"
    using N(1,2) by (intro unique_le_total [OF assms(1)]) simp_all
  then show ?thesis
    by (simp add: uniqueVisitors_generate N(3))
qed

lemma double_rounding_exact: "double_rounding (\<lambda>x. x)"
  by (simp add: double_rounding_def mono_def)

lemma upt_historyDays: "[0..<historyDays] = [0, 1, 2, 3, 4, 5, 6]"
  unfolding historyDays_def by code_simp

lemma pageViews_example: "pageViews (generateFakeAnalytics utc_host 0 (\<lambda>i. 1 / 2)) = 2450"
  by (simp add: pageViews_generate upt_historyDays history_entry_at_def utc_host_def)

lemma uniqueVisitors_example: "uniqueVisitors (generateFakeAnalytics utc_host 0 (\<lambda>i. 1 / 2)) = 1715"
  by (simp add: uniqueVisitors_generate pageViews_example) (simp add: utc_host_def)

theorem uniqueVisitors_le_pageViews_witness:
  "double_rounding (round_double utc_host) \<and>
   uniqueVisitors (generateFakeAnalytics utc_host 0 (\<lambda>i. 1 / 2)) = 1715 \<and>
   pageViews (generateFakeAnalytics utc_host 0 (\<lambda>i. 1 / 2)) = 2450 \<and>
   (0 :: real) \<le> 1715 \<and> (1715 :: real) \<le> 2450"
proof -
  have rd: "double_rounding (round_double utc_host)"
    by (simp add: utc_host_def double_rounding_exact)
  have r: "\<forall>i :: nat. (0 :: real) \<le> 1 / 2 \<and> (1 / 2 :: real) < 1"
    by simp
  show ?thesis
    using uniqueVisitors_le_pageViews [OF rd r, of 0] rd
    by (simp add: uniqueVisitors_example pageViews_example)
qed

lemma pad_2: "pad 2 n = [digit (n div 10 mod 10), digit (n mod 10)]"
  by (simp add: numeral_2_eq_2)

lemma pad_3: "pad 3 n = pad 2 (n div 10) @ [digit (n mod 10)]"
  using pad.simps(2) [of 2 n] by simp

lemma pad_4: "pad 4 n = pad 3 (n div 10) @ [digit (n mod 10)]"
  using pad.simps(2) [of 3 n] by simp

lemma pad_5: "pad 5 n = pad 4 (n div 10) @ [digit (n mod 10)]"
  using pad.simps(2) [of 4 n] by simp

lemma pad_6: "pad 6 n = pad 5 (n div 10) @ [digit (n mod 10)]"
  using pad.simps(2) [of 5 n] by simp

lemmas civil_defs =
  civil_from_days_def era_of_days_def doe_of_days_def yoe_of_doe_def doy_of_doe_def
  mp_of_doy_def day_of_doy_def month_of_doy_def days_from_civil_def shifted_year_def
  doy_from_civil_def doe_from_civil_def

lemmas time_defs =
  Day_def TimeWithinDay_def msPerDay_def YearFromTime_def MonthFromTime_def DateFromTime_def
  HourFromTime_def MinFromTime_def SecFromTime_def msFromTime_def

lemmas setDate_defs =
  setDate_def getDate_def LocalTime_def UTC_def MakeDay_def MakeDate_def time_defs civil_defs

lemmas toISOString_defs =
  toISOString_def year_string_def pad_2 pad_3 pad_4 pad_5 pad_6 digit_def str_def
  time_defs civil_defs

lemma dates_generate:
  "map date (pageViewsHistory (generateFakeAnalytics h now random)) =
     map (\<lambda>i. takeWhile (\<lambda>c. c \<noteq> ch CHR ''T'')
                 (toISOString (setDate h (getDate h now - (6 - int i)) now)))
       [0, 1, 2, 3, 4, 5, 6]"
  by (simp add: pageViewsHistory_generate upt_historyDays)
     (simp add: history_entry_at_def historyDays_def)

lemma getDate_new_york: "getDate new_york_host 1604277000000 = 1"
  by (simp add: setDate_defs new_york_host_def new_york_autumn_2020_def)

lemma setDate_new_york:
  "setDate new_york_host (- 5) 1604277000000 = 1603755000000"
  "setDate new_york_host (- 4) 1604277000000 = 1603841400000"
  "setDate new_york_host (- 3) 1604277000000 = 1603927800000"
  "setDate new_york_host (- 2) 1604277000000 = 1604014200000"
  "setDate new_york_host (- 1) 1604277000000 = 1604100600000"
  "setDate new_york_host 0 1604277000000 = 1604187000000"
  "setDate new_york_host 1 1604277000000 = 1604277000000"
  by (simp_all add: setDate_defs new_york_host_def new_york_autumn_2020_def)

lemma getDate_utc: "getDate utc_host 1604277000000 = 2"
  by (simp add: setDate_defs utc_host_def)

lemma setDate_utc:
  "setDate utc_host (- 4) 1604277000000 = 1603758600000"
  "setDate utc_host (- 3) 1604277000000 = 1603845000000"
  "setDate utc_host (- 2) 1604277000000 = 1603931400000"
  "setDate utc_host (- 1) 1604277000000 = 1604017800000"
  "setDate utc_host 0 1604277000000 = 1604104200000"
  "setDate utc_host 1 1604277000000 = 1604190600000"
  "setDate utc_host 2 1604277000000 = 1604277000000"
  by (simp_all add: setDate_defs utc_host_def)

lemma toISOString_examples:
  "toISOString 1603755000000 = str ''2020-10-26T23:30:00.000Z''"
  "toISOString 1603841400000 = str ''2020-10-27T23:30:00.000Z''"
  "toISOString 1603927800000 = str ''2020-10-28T23:30:00.000Z''"
  "toISOString 1604014200000 = str ''2020-10-29T23:30:00.000Z''"
  "toISOString 1604100600000 = str ''2020-10-30T23:30:00.000Z''"
  "toISOString 1604187000000 = str ''2020-10-31T23:30:00.000Z''"
  "toISOString 1604277000000 = str ''2020-11-02T00:30:00.000Z''"
  "toISOString 1603758600000 = str ''2020-10-27T00:30:00.000Z''"
  "toISOString 1603845000000 = str ''2020-10-28T00:30:00.000Z''"
  "toISOString 1603931400000 = str ''2020-10-29T00:30:00.000Z''"
  "toISOString 1604017800000 = str ''2020-10-30T00:30:00.000Z''"
  "toISOString 1604104200000 = str ''2020-10-31T00:30:00.000Z''"
  "toISOString 1604190600000 = str ''2020-11-01T00:30:00.000Z''"
  by (simp_all add: toISOString_defs)

text \<open>
  On a host on UTC the generator called at 2020-11-02T00:30:00.000Z dates its seven
  entries on the seven days that end on the second of November.
\<close>

lemma dates_utc:
  "map date (pageViewsHistory (generateFakeAnalytics utc_host 1604277000000 random)) =
     [str ''2020-10-27'', str ''2020-10-28'', str ''2020-10-29'', str ''2020-10-30'',
      str ''2020-10-31'', str ''2020-11-01'', str ''2020-11-02'']"
  by (simp add: dates_generate getDate_utc setDate_utc toISOString_examples) (simp add: str_def)

text \<open>
  C8: the history has exactly 7 entries, oldest first, one for each of the consecutive
  calendar days that end at the time of generation, each with a non-negative integer for
  its views. The code contradicts the part on the days: it steps back in local calendar
  days (\<^verbatim>\<open>getDate\<close>, \<^verbatim>\<open>setDate\<close>) and prints the UTC date (\<^verbatim>\<open>toISOString\<close>). In New
  York at 2020-11-02T00:30:00.000Z, which is 19:30 local time on the first of November,
  the day the clocks went back, the seven entries are dated from the 26th of October to
  the second of November and none is dated 2020-11-01.
\<close>

theorem history_skips_a_day_in_new_york:
  "map date (pageViewsHistory (generateFakeAnalytics new_york_host 1604277000000 random)) =
     [str ''2020-10-26'', str ''2020-10-27'', str ''2020-10-28'', str ''2020-10-29'',
      str ''2020-10-30'', str ''2020-10-31'', str ''2020-11-02''] \<and>
   lastUpdated (generateFakeAnalytics new_york_host 1604277000000 random) =
     str ''2020-11-02T00:30:00.000Z'' \<and>
   LocalTime new_york_host 1604277000000 = 1604259000000 \<and>
   toISOString 1604259000000 = str ''2020-11-01T19:30:00.000Z''"
proof -
  have "map date (pageViewsHistory (generateFakeAnalytics new_york_host 1604277000000 random)) =
     [str ''2020-10-26'', str ''2020-10-27'', str ''2020-10-28'', str ''2020-10-29'',
      str ''2020-10-30'', str ''2020-10-31'', str ''2020-11-02'']"
    by (simp add: dates_generate getDate_new_york setDate_new_york toISOString_examples)
       (simp add: str_def)
  moreover have "lastUpdated (generateFakeAnalytics new_york_host 1604277000000 random) =
     str ''2020-11-02T00:30:00.000Z''"
    by (simp add: generateFakeAnalytics_def Let_def toISOString_examples)
  moreover have "LocalTime new_york_host 1604277000000 = 1604259000000"
    by (simp add: LocalTime_def new_york_host_def new_york_autumn_2020_def)
  moreover have "toISOString 1604259000000 = str ''2020-11-01T19:30:00.000Z''"
    by (simp add: toISOString_defs)
  ultimately show ?thesis
    by simp
qed

section \<open>Properties of the codec\<close>

lemma unat_code_unit: "k < 65536 \<Longrightarrow> unat (of_nat k :: code_unit) = k"
  by (simp add: unat_of_nat)

lemma unat_offset:
  "n < 16 \<Longrightarrow> unat (48 + of_nat n :: code_unit) = 48 + n"
  "n < 16 \<Longrightarrow> unat (87 + of_nat n :: code_unit) = 87 + n"
  using unat_code_unit [of "48 + n"] unat_code_unit [of "87 + n"] by simp_all

lemma hex_val_hex_digit: "n < 16 \<Longrightarrow> hex_val (hex_digit n) = Some n"
  by (simp add: hex_val_def hex_digit_def word_le_nat_alt unat_offset)

lemma hex_positional:
  "((u div 4096 * 16 + u div 256 mod 16) * 16 + u div 16 mod 16) * 16 + u mod 16 = (u :: nat)"
proof -
  have a: "u div 256 = u div 16 div 16"
    using div_mult2_eq [of u 16 16] by simp
  have b: "u div 4096 = u div 16 div 16 div 16"
    using div_mult2_eq [of u 256 16] a by simp
  show ?thesis
    unfolding a b by (simp only: div_mult_mod_eq)
qed

lemma hex4_unicode_escape:
  "hex4 (hex_digit (unat c div 4096)) (hex_digit (unat c div 256 mod 16))
     (hex_digit (unat c div 16 mod 16)) (hex_digit (unat c mod 16)) = Some (c :: code_unit)"
proof -
  have "unat c < 2 ^ LENGTH(16)"
    by (rule unsigned_less)
  then have "unat c div 4096 < 16"
    by simp
  then have digits:
    "hex_val (hex_digit (unat c div 4096)) = Some (unat c div 4096)"
    "hex_val (hex_digit (unat c div 256 mod 16)) = Some (unat c div 256 mod 16)"
    "hex_val (hex_digit (unat c div 16 mod 16)) = Some (unat c div 16 mod 16)"
    "hex_val (hex_digit (unat c mod 16)) = Some (unat c mod 16)"
    by (simp_all add: hex_val_hex_digit)
  have "(of_nat (((unat c div 4096 * 16 + unat c div 256 mod 16) * 16 + unat c div 16 mod 16) * 16
      + unat c mod 16) :: code_unit) = of_nat (unat c)"
    by (simp only: hex_positional)
  then show ?thesis
    unfolding hex4_def digits by (simp del: of_nat_add of_nat_mult)
qed

lemma lex_string_plain:
  "c \<noteq> 0x22 \<Longrightarrow> c \<noteq> 0x5C \<Longrightarrow> \<not> c < 0x20 \<Longrightarrow>
   lex_string (c # cs) = map_option (\<lambda>(s, r). (c # s, r)) (lex_string cs)"
  by simp

lemma lex_string_unicode_escape:
  "lex_string (unicode_escape c @ cs) = map_option (\<lambda>(s, r). (c # s, r)) (lex_string cs)"
  by (simp add: unicode_escape_def hex4_unicode_escape)

lemma lex_string_quote_unit:
  "lex_string (quote_unit c @ cs) = map_option (\<lambda>(s, r). (c # s, r)) (lex_string cs)"
proof -
  consider "c = 0x08" | "c = 0x09" | "c = 0x0A" | "c = 0x0C" | "c = 0x0D" | "c = 0x22" | "c = 0x5C"
    | "c \<notin> {0x08, 0x09, 0x0A, 0x0C, 0x0D, 0x22, 0x5C}"
        "c < 0x20 \<or> is_leading_surrogate c \<or> is_trailing_surrogate c"
    | "c \<notin> {0x08, 0x09, 0x0A, 0x0C, 0x0D, 0x22, 0x5C}"
        "\<not> (c < 0x20 \<or> is_leading_surrogate c \<or> is_trailing_surrogate c)"
    by blast
  then show ?thesis
  proof cases
    case 8
    then have "quote_unit c = unicode_escape c"
      by (simp add: quote_unit_def)
    then show ?thesis
      by (simp only: lex_string_unicode_escape)
  next
    case 9
    then have "quote_unit c = [c]"
      by (simp add: quote_unit_def)
    then show ?thesis
      using 9 by (simp del: lex_string.simps add: lex_string_plain)
  qed (simp_all add: quote_unit_def escape_char_def)
qed

lemma surrogate_plain:
  assumes "is_leading_surrogate c \<or> is_trailing_surrogate c"
  shows "c \<noteq> 0x22" "c \<noteq> 0x5C" "\<not> c < 0x20"
  using assms
  by (auto simp: is_leading_surrogate_def is_trailing_surrogate_def word_le_nat_alt word_less_nat_alt)

lemma lex_string_quote_units:
  "lex_string (quote_units s @ 0x22 # rest) = Some (s, rest)"
proof (induction s rule: quote_units.induct)
  case 1
  then show ?case by simp
next
  case (2 c)
  then show ?case by (simp del: lex_string.simps add: lex_string_quote_unit) simp
next
  case (3 c d cs)
  show ?case
  proof (cases "is_leading_surrogate c \<and> is_trailing_surrogate d")
    case True
    then have "lex_string (quote_units cs @ 0x22 # rest) = Some (cs, rest)"
      using 3 by simp
    then show ?thesis
      using True surrogate_plain [of c] surrogate_plain [of d]
      by (simp del: lex_string.simps add: lex_string_plain)
  next
    case False
    then have ih: "lex_string (quote_units (d # cs) @ 0x22 # rest) = Some (d # cs, rest)"
      using 3 by simp
    have q: "quote_units (c # d # cs) = quote_unit c @ quote_units (d # cs)"
      using False by auto
    show ?thesis
      unfolding q by (simp del: lex_string.simps quote_units.simps add: lex_string_quote_unit ih)
  qed
qed

lemma tokenize_QuoteJSONString:
  "tokenize (QuoteJSONString s @ rest) = map_option (Cons (Lit (JStr s))) (tokenize rest)"
  by (simp add: QuoteJSONString_def lex_string_quote_units is_ws_def)

lemma digit_props:
  assumes "d < 10"
  shows "is_digit (digit d)" "digit_val (digit d) = d" "(digit d = 48) = (d = 0)" "digit d \<noteq> ch CHR ''-''"
proof -
  have u: "unat (digit d) = 48 + d"
    using assms unat_code_unit [of "48 + d"] by (simp add: digit_def)
  show "is_digit (digit d)"
    using assms by (simp add: is_digit_def word_le_nat_alt u)
  show "digit_val (digit d) = d"
    by (simp add: digit_val_def u)
  have "(digit d = 48) = (unat (digit d) = unat (48 :: code_unit))"
    by (simp only: word_unat_eq_iff)
  then show "(digit d = 48) = (d = 0)"
    by (simp add: u)
  have "(digit d = 45) = (unat (digit d) = unat (45 :: code_unit))"
    by (simp only: word_unat_eq_iff)
  then show "digit d \<noteq> ch CHR ''-''"
    by (simp add: u)
qed

lemma digits_val_snoc: "digits_val (ds @ [d]) = 10 * digits_val ds + digit_val d"
  by (simp add: digits_val_def)

lemma dec_nonempty: "dec n \<noteq> []"
  by (subst dec.simps) simp

lemma dec_digits: "list_all is_digit (dec n)"
proof (induction n rule: dec.induct)
  case (1 n)
  then show ?case
    by (subst dec.simps) (simp add: digit_props)
qed

lemma digits_val_dec: "digits_val (dec n) = n"
proof (induction n rule: dec.induct)
  case (1 n)
  show ?case
  proof (cases "n < 10")
    case True
    then show ?thesis
      using digits_val_snoc [of "[]" "digit n"]
      by (subst dec.simps) (simp add: digit_props digits_val_def)
  next
    case False
    then show ?thesis
      using 1 by (subst dec.simps) (simp add: digits_val_snoc digit_props)
  qed
qed

lemma hd_dec: "hd (dec n) = 48 \<Longrightarrow> n = 0"
proof (induction n rule: dec.induct)
  case (1 n)
  show ?case
  proof (cases "n < 10")
    case True
    then show ?thesis
      using 1(2) by (subst (asm) dec.simps) (simp add: digit_props)
  next
    case False
    then have "hd (dec n) = hd (dec (n div 10))"
      by (subst dec.simps) (simp add: dec_nonempty)
    then have "n div 10 = 0"
      using 1 False by simp
    then show ?thesis
      using False by simp
  qed
qed

lemma length_dec: "1 < length (dec n) \<Longrightarrow> 10 \<le> n"
  by (subst (asm) dec.simps) (simp split: if_splits)

lemma pad_digits: "list_all is_digit (pad w n)"
  by (induction w arbitrary: n) (simp_all add: digit_props)

lemma length_pad: "length (pad w n) = w"
  by (induction w arbitrary: n) simp_all

lemma digits_val_pad: "digits_val (pad w n) = n mod 10 ^ w"
proof (induction w arbitrary: n)
  case 0
  then show ?case by (simp add: digits_val_def)
next
  case (Suc w)
  have "10 * (n div 10 mod 10 ^ w) + n mod 10 = n mod (10 * 10 ^ w)"
    by (simp add: mod_mult2_eq)
  then show ?case
    by (simp add: digits_val_snoc Suc digit_props)
qed

lemma span_digits:
  assumes "list_all is_digit ds" "rest = [] \<or> \<not> is_digit (hd rest)"
  shows "takeWhile is_digit (ds @ rest) = ds" "dropWhile is_digit (ds @ rest) = rest"
  using assms by (cases rest; simp add: takeWhile_append2 dropWhile_append2 list_all_iff)+

lemma delimited_not_number:
  assumes "delimited rest"
  shows "rest = [] \<or> \<not> is_digit (hd rest)" "lex_exponent rest = Some (0, rest)"
    "lex_fraction rest = Some ([], rest)"
  using assms
  by (cases rest; auto simp: delimited_def is_digit_def lex_exponent_def lex_fraction_def)+

lemma digits_val_Nil: "digits_val [] = 0"
  by (simp add: digits_val_def)

lemma places_from_Some:
  "places_from fuel e0 x = Some e \<Longrightarrow> of_int \<lfloor>x * 10 ^ e\<rfloor> = x * 10 ^ e"
  by (induction fuel arbitrary: e0) (auto split: if_splits)

lemma decimal_places_Some:
  "decimal_places x = Some e \<Longrightarrow> of_int \<lfloor>x * 10 ^ e\<rfloor> = x * 10 ^ e"
  unfolding decimal_places_def by (rule places_from_Some)

lemma positional_value:
  assumes "0 \<le> x" "of_int \<lfloor>x * 10 ^ e\<rfloor> = x * 10 ^ e"
  shows "real (nat \<lfloor>x * 10 ^ e\<rfloor> div 10 ^ e) + real (nat \<lfloor>x * 10 ^ e\<rfloor> mod 10 ^ e) / 10 ^ e = x"
proof -
  define N where "N = nat \<lfloor>x * 10 ^ e\<rfloor>"
  have "0 \<le> x * 10 ^ e"
    using assms(1) by simp
  then have "0 \<le> \<lfloor>x * 10 ^ e\<rfloor>"
    by simp
  then have N: "real N = x * 10 ^ e"
    using assms(2) by (simp add: N_def)
  have nat_eq: "N div 10 ^ e * 10 ^ e + N mod 10 ^ e = N"
    by (rule div_mult_mod_eq)
  have "real (N div 10 ^ e) * 10 ^ e + real (N mod 10 ^ e) =
      real (N div 10 ^ e * 10 ^ e + N mod 10 ^ e)"
    by simp
  also have "\<dots> = real N"
    by (simp only: nat_eq)
  finally have "x * 10 ^ e = real (N div 10 ^ e) * 10 ^ e + real (N mod 10 ^ e)"
    using N by simp
  then have "x = (real (N div 10 ^ e) * 10 ^ e + real (N mod 10 ^ e)) / 10 ^ e"
    by (simp add: field_simps)
  then show ?thesis
    unfolding N_def [symmetric] by (simp add: field_simps)
qed

lemma lex_number_unsigned:
  assumes x: "0 \<le> x" and e: "decimal_places x = Some e" and rest: "delimited rest"
  shows "lex_number (unsigned_toString x @ rest) = Some (x, rest)"
    and "lex_number (ch CHR ''-'' # unsigned_toString x @ rest) = Some (- x, rest)"
proof -
  define N where "N = nat \<lfloor>x * 10 ^ e\<rfloor>"
  define ip where "ip = dec (N div 10 ^ e)"
  define fr where "fr = (if e = 0 then [] else pad e (N mod 10 ^ e))"
  define frac where "frac = (if e = 0 then [] else ch CHR ''.'' # pad e (N mod 10 ^ e))"
  have u: "unsigned_toString x = ip @ frac"
    by (simp add: unsigned_toString_def e N_def ip_def frac_def)
  have frac_start: "frac @ rest = [] \<or> \<not> is_digit (hd (frac @ rest))"
    using delimited_not_number(1) [OF rest] by (auto simp: frac_def is_digit_def)
  have ip_digits: "list_all is_digit ip"
    by (simp add: ip_def dec_digits)
  have take: "takeWhile is_digit (ip @ frac @ rest) = ip"
    and drop: "dropWhile is_digit (ip @ frac @ rest) = frac @ rest"
    using span_digits [OF ip_digits frac_start] by simp_all
  have ip_ne: "ip \<noteq> []"
    by (simp add: ip_def dec_nonempty)
  have hd_ip: "hd (ip @ frac @ rest) \<noteq> ch CHR ''-''"
  proof -
    have "is_digit (hd ip)"
      using ip_digits ip_ne by (cases ip) simp_all
    then show ?thesis
      using ip_ne by (auto simp: is_digit_def)
  qed
  have no_zero: "\<not> (1 < length ip \<and> hd ip = ch CHR ''0'')"
    using hd_dec [of "N div 10 ^ e"] length_dec [of "N div 10 ^ e"] by (auto simp: ip_def)
  have fraction: "lex_fraction (frac @ rest) = Some (fr, rest)"
  proof (cases "e = 0")
    case True
    then show ?thesis
      using delimited_not_number(3) [OF rest] by (simp add: frac_def fr_def)
  next
    case False
    have "pad e (N mod 10 ^ e) \<noteq> []"
      using False length_pad [of e "N mod 10 ^ e"] by (cases "pad e (N mod 10 ^ e)") simp_all
    then show ?thesis
      using False span_digits [OF pad_digits delimited_not_number(1) [OF rest], of e "N mod 10 ^ e"]
      by (simp add: frac_def fr_def lex_fraction_def)
  qed
  have exponent: "lex_exponent rest = Some (0, rest)"
    by (rule delimited_not_number(2) [OF rest])
  have "real (digits_val ip) + real (digits_val fr) / 10 ^ length fr =
      real (N div 10 ^ e) + real (N mod 10 ^ e) / 10 ^ e"
    by (simp add: ip_def fr_def digits_val_dec digits_val_pad length_pad digits_val_Nil)
  also have "\<dots> = x"
    unfolding N_def by (rule positional_value [OF x decimal_places_Some [OF e]])
  finally have val: "real (digits_val ip) + real (digits_val fr) / 10 ^ length fr = x" .
  have ne: "ip @ frac @ rest \<noteq> []"
    using ip_ne by simp
  show "lex_number (unsigned_toString x @ rest) = Some (x, rest)"
    using ne hd_ip no_zero ip_ne
    by (simp add: lex_number_def u take drop fraction exponent val scale10_def del: hd_append2)
  show "lex_number (ch CHR ''-'' # unsigned_toString x @ rest) = Some (- x, rest)"
    using no_zero ip_ne
    by (simp add: lex_number_def u take drop fraction exponent val scale10_def)
qed

lemma lex_number_toString:
  assumes "decimal_places \<bar>x\<bar> = Some e" "delimited rest"
  shows "lex_number (Number_toString x @ rest) = Some (x, rest)"
proof (cases "x < 0")
  case True
  then show ?thesis
    using lex_number_unsigned(2) [of "- x" e rest] assms by (simp add: Number_toString_def)
next
  case False
  then show ?thesis
    using lex_number_unsigned(1) [of x e rest] assms by (simp add: Number_toString_def)
qed

lemma Number_toString_start:
  assumes "decimal_places \<bar>x\<bar> = Some e"
  shows "\<exists>c cs. Number_toString x = c # cs \<and> (c = ch CHR ''-'' \<or> is_digit c)"
proof -
  have "\<exists>c cs. unsigned_toString \<bar>x\<bar> = c # cs \<and> is_digit c"
    using dec_digits [of "nat \<lfloor>\<bar>x\<bar> * 10 ^ e\<rfloor> div 10 ^ e"] dec_nonempty [of "nat \<lfloor>\<bar>x\<bar> * 10 ^ e\<rfloor> div 10 ^ e"]
    by (cases "dec (nat \<lfloor>\<bar>x\<bar> * 10 ^ e\<rfloor> div 10 ^ e)") (simp_all add: unsigned_toString_def assms)
  then show ?thesis
    by (cases "x < 0") (auto simp: Number_toString_def abs_if)
qed

lemma tokenize_Number_toString:
  assumes "decimal_places \<bar>x\<bar> = Some e" "delimited rest"
  shows "tokenize (Number_toString x @ rest) = map_option (Cons (Lit (JNum x))) (tokenize rest)"
proof -
  obtain c cs where c: "Number_toString x = c # cs" "c = ch CHR ''-'' \<or> is_digit c"
    using Number_toString_start [OF assms(1)] by blast
  have "lex_number (c # cs @ rest) = Some (x, rest)"
    using lex_number_toString [OF assms] c(1) by simp
  moreover have "\<not> is_ws c" "c \<noteq> ch CHR ''{''" "c \<noteq> ch CHR ''}''" "c \<noteq> ch CHR ''[''"
    "c \<noteq> ch CHR '']''" "c \<noteq> ch CHR '':''" "c \<noteq> ch CHR '',''" "c \<noteq> 0x22"
    using c(2) by (auto simp: is_ws_def is_digit_def)
  ultimately show ?thesis
    using c by (simp del: of_char_Char)
qed

lemma delimited_Cons:
  "delimited (0x2C # cs)" "delimited (0x5D # cs)" "delimited (0x7D # cs)"
  by (simp_all add: delimited_def)

lemma tokenize_punctuation:
  "tokenize (0x5B # cs) = map_option (Cons LBracket) (tokenize cs)"
  "tokenize (0x5D # cs) = map_option (Cons RBracket) (tokenize cs)"
  "tokenize (0x7B # cs) = map_option (Cons LBrace) (tokenize cs)"
  "tokenize (0x7D # cs) = map_option (Cons RBrace) (tokenize cs)"
  "tokenize (0x2C # cs) = map_option (Cons Comma) (tokenize cs)"
  "tokenize (0x3A # cs) = map_option (Cons Colon) (tokenize cs)"
  by (simp_all add: is_ws_def)

lemma tokenize_names:
  "tokenize (str ''null'' @ cs) = map_option (Cons (Lit JNull)) (tokenize cs)"
  "tokenize (str ''true'' @ cs) = map_option (Cons (Lit (JBool True))) (tokenize cs)"
  "tokenize (str ''false'' @ cs) = map_option (Cons (Lit (JBool False))) (tokenize cs)"
  by (simp_all add: str_def is_ws_def is_digit_def)

lemma map_option_append: "map_option ((@) xs) (map_option ((@) ys) m) = map_option ((@) (xs @ ys)) m"
  by (cases m) simp_all

lemma map_option_Cons_append: "map_option (Cons x) (map_option ((@) ys) m) = map_option ((@) (x # ys)) m"
  by (cases m) simp_all

lemma tokenize_separate:
  assumes each: "\<And>x rest. x \<in> set xs \<Longrightarrow> delimited rest \<Longrightarrow>
      tokenize (f x @ rest) = map_option ((@) (g x)) (tokenize rest)"
    and closer: "c = ch CHR '']'' \<or> c = ch CHR ''}''"
  shows "tokenize (separate (ch CHR '','') (map f xs) @ c # rest) =
         map_option ((@) (separate Comma (map g xs))) (tokenize (c # rest))"
  using each
proof (induction xs rule: induct_list012)
  case 1
  then show ?case by (simp add: option.map_ident)
next
  case (2 x)
  have "delimited (c # rest)"
    using closer by (auto simp: delimited_Cons)
  then show ?case
    using 2 [of x "c # rest"] by simp
next
  case (3 x y zs)
  have tail: "tokenize (separate (ch CHR '','') (map f (y # zs)) @ c # rest) =
         map_option ((@) (separate Comma (map g (y # zs)))) (tokenize (c # rest))"
    using 3(3) by (intro 3(2)) simp_all
  have "tokenize (f x @ ch CHR '','' # separate (ch CHR '','') (map f (y # zs)) @ c # rest) =
      map_option ((@) (g x)) (tokenize (ch CHR '','' # separate (ch CHR '','') (map f (y # zs)) @ c # rest))"
    by (intro 3(3)) (simp_all add: delimited_Cons)
  with tail show ?case
    by (cases "tokenize (c # rest)")
       (simp_all add: tokenize_punctuation del: tokenize.simps)
qed

lemma serialisable_defined: "serialisable v \<Longrightarrow> v \<noteq> JUndefined"
  by auto

lemma filter_defined:
  "list_all (\<lambda>(k, v). serialisable v) ps \<Longrightarrow> filter (\<lambda>(k, v). v \<noteq> JUndefined) ps = ps"
  by (induction ps) (auto dest: serialisable_defined)

lemma tokenize_stringify:
  "serialisable v \<Longrightarrow> delimited rest \<Longrightarrow>
   tokenize (stringify v @ rest) = map_option ((@) (tokens_of v)) (tokenize rest)"
proof (induction v arbitrary: rest)
  case JUndefined
  then show ?case by simp
next
  case JNull
  then show ?case by (simp add: tokenize_names del: tokenize.simps)
next
  case (JBool b)
  then show ?case by (simp add: tokenize_names del: tokenize.simps)
next
  case (JNum x)
  then obtain e where "decimal_places \<bar>x\<bar> = Some e"
    by auto
  then show ?case
    using JNum by (simp add: tokenize_Number_toString del: tokenize.simps)
next
  case (JStr s)
  then show ?case by (simp add: tokenize_QuoteJSONString del: tokenize.simps)
next
  case (JArr xs)
  have "tokenize (separate (ch CHR '','') (map stringify xs) @ ch CHR '']'' # rest) =
         map_option ((@) (separate Comma (map tokens_of xs))) (tokenize (ch CHR '']'' # rest))"
    using JArr by (intro tokenize_separate) (auto simp: list_all_iff)
  then show ?case
    by (cases "tokenize rest") (simp_all add: tokenize_punctuation del: tokenize.simps)
next
  case (JObj ps)
  let ?f = "\<lambda>(k, v). QuoteJSONString k @ ch CHR '':'' # stringify v"
  let ?g = "\<lambda>(k, v). Lit (JStr k) # Colon # tokens_of v"
  have all: "list_all (\<lambda>(k, v). serialisable v) ps"
    using JObj.prems by simp
  have member: "tokenize (?f p @ r) = map_option ((@) (?g p)) (tokenize r)"
    if "p \<in> set ps" "delimited r" for p r
  proof -
    obtain k v where p: "p = (k, v)"
      by (cases p)
    have "serialisable v"
      using all that(1) p by (auto simp: list_all_iff)
    then have "tokenize (stringify v @ r) = map_option ((@) (tokens_of v)) (tokenize r)"
      using JObj.IH [of p v r] that p by simp
    then show ?thesis
      by (cases "tokenize r")
         (simp_all add: p tokenize_QuoteJSONString tokenize_punctuation del: tokenize.simps)
  qed
  have "tokenize (separate (ch CHR '','') (map ?f ps) @ ch CHR ''}'' # rest) =
         map_option ((@) (separate Comma (map ?g ps))) (tokenize (ch CHR ''}'' # rest))"
    using member by (intro tokenize_separate) auto
  then show ?case
    by (cases "tokenize rest")
       (simp_all add: filter_defined [OF all] tokenize_punctuation del: tokenize.simps)
qed

lemma separate_Cons: "separate c (x # xs) = x @ concat (map (\<lambda>y. c # y) xs)"
  by (induction xs arbitrary: x) simp_all

lemma define_property_new:
  "k \<notin> fst ` set ps \<Longrightarrow> define_property ps k v = ps @ [(k, v)]"
  by (induction ps) auto

lemma parse_tokens_Cons:
  "parse_tokens e st (t # ts) =
     (case parse_step e st t of None \<Rightarrow> None | Some (e', st') \<Rightarrow> parse_tokens e' st' ts)"
  by (cases e) simp_all

lemma parse_step_literal:
  assumes "e = Value \<or> e = ValueOrClose"
  shows "parse_step e st (Lit v) = reduce v st"
    "parse_step e st LBracket = Some (ValueOrClose, FArr [] # st)"
    "parse_step e st LBrace = Some (KeyOrClose, FObj [] # st)"
  using assms by (auto elim: parse_step.elims)

lemma parse_elements:
  assumes each: "\<And>x st ts. x \<in> set xs \<Longrightarrow>
      parse_tokens Value st (tokens_of x @ ts) = continue (reduce x st) ts"
  shows "parse_tokens Next (FArr es # st) (concat (map (\<lambda>x. Comma # tokens_of x) xs) @ RBracket # ts) =
         continue (reduce (JArr (es @ xs)) st) ts"
  using each
proof (induction xs arbitrary: es)
  case Nil
  then show ?case
    by (simp add: continue_def)
next
  case (Cons x xs)
  have "parse_tokens Value (FArr es # st)
      (tokens_of x @ concat (map (\<lambda>x. Comma # tokens_of x) xs) @ RBracket # ts) =
      continue (reduce x (FArr es # st)) (concat (map (\<lambda>x. Comma # tokens_of x) xs) @ RBracket # ts)"
    by (intro Cons.prems) simp
  moreover have "parse_tokens Next (FArr (es @ [x]) # st)
      (concat (map (\<lambda>x. Comma # tokens_of x) xs) @ RBracket # ts) =
      continue (reduce (JArr ((es @ [x]) @ xs)) st) ts"
    using Cons.prems by (intro Cons.IH) simp
  ultimately show ?case
    by (simp add: continue_def)
qed

lemma parse_members:
  assumes each: "\<And>k v st ts. (k, v) \<in> set ps \<Longrightarrow>
      parse_tokens Value st (tokens_of v @ ts) = continue (reduce v st) ts"
    and keys: "distinct (map fst (qs @ ps))"
  shows "parse_tokens Next (FObj qs # st)
           (concat (map (\<lambda>p. Comma # (case p of (k, v) \<Rightarrow> Lit (JStr k) # Colon # tokens_of v)) ps) @
            RBrace # ts) =
         continue (reduce (JObj (qs @ ps)) st) ts"
  using each keys
proof (induction ps arbitrary: qs)
  case Nil
  then show ?case
    by (simp add: continue_def)
next
  case (Cons p ps)
  obtain k v where p: "p = (k, v)"
    by (cases p)
  have new: "k \<notin> fst ` set qs"
    using Cons.prems(2) by (auto simp: p)
  have "parse_tokens Value (FKey k # FObj qs # st)
      (tokens_of v @ concat (map (\<lambda>p. Comma # (case p of (k, v) \<Rightarrow> Lit (JStr k) # Colon # tokens_of v)) ps) @ RBrace # ts) =
      continue (reduce v (FKey k # FObj qs # st))
        (concat (map (\<lambda>p. Comma # (case p of (k, v) \<Rightarrow> Lit (JStr k) # Colon # tokens_of v)) ps) @ RBrace # ts)"
    by (rule Cons.prems(1) [of k v]) (simp add: p)
  moreover have "parse_tokens Next (FObj (qs @ [(k, v)]) # st)
      (concat (map (\<lambda>p. Comma # (case p of (k, v) \<Rightarrow> Lit (JStr k) # Colon # tokens_of v)) ps) @ RBrace # ts) =
      continue (reduce (JObj ((qs @ [(k, v)]) @ ps)) st) ts"
    using Cons.prems by (intro Cons.IH) (auto simp: p)
  ultimately show ?case
    by (simp add: continue_def p define_property_new [OF new])
qed

lemma parse_tokens_of:
  "serialisable v \<Longrightarrow> e = Value \<or> e = ValueOrClose \<Longrightarrow>
   parse_tokens e st (tokens_of v @ ts) = continue (reduce v st) ts"
proof (induction v arbitrary: e st ts)
  case JUndefined
  then show ?case by simp
next
  case JNull
  then show ?case
    by (simp add: parse_tokens_Cons parse_step_literal continue_def del: parse_tokens.simps)
next
  case (JBool b)
  then show ?case
    by (simp add: parse_tokens_Cons parse_step_literal continue_def del: parse_tokens.simps)
next
  case (JNum x)
  then show ?case
    by (simp add: parse_tokens_Cons parse_step_literal continue_def del: parse_tokens.simps)
next
  case (JStr s)
  then show ?case
    by (simp add: parse_tokens_Cons parse_step_literal continue_def del: parse_tokens.simps)
next
  case (JArr xs)
  have each: "parse_tokens Value st (tokens_of x @ ts) = continue (reduce x st) ts"
    if "x \<in> set xs" for x st ts
    using JArr.IH [OF that] JArr.prems(1) that by (simp add: list_all_iff)
  show ?case
  proof (cases xs)
    case Nil
    then show ?thesis
      using JArr.prems(2)
      by (simp add: parse_tokens_Cons parse_step_literal continue_def del: parse_tokens.simps)
  next
    case (Cons x xs')
    have first: "parse_tokens ValueOrClose (FArr [] # st)
        (tokens_of x @ concat (map (\<lambda>x. Comma # tokens_of x) xs') @ RBracket # ts) =
        continue (reduce x (FArr [] # st)) (concat (map (\<lambda>x. Comma # tokens_of x) xs') @ RBracket # ts)"
      using JArr.IH [of x ValueOrClose] JArr.prems(1) by (simp add: Cons)
    have rest: "parse_tokens Next (FArr [x] # st)
        (concat (map (\<lambda>x. Comma # tokens_of x) xs') @ RBracket # ts) =
        continue (reduce (JArr ([x] @ xs')) st) ts"
      using each by (intro parse_elements) (simp add: Cons)
    show ?thesis
      using JArr.prems(2) first rest
      by (simp add: Cons separate_Cons parse_tokens_Cons parse_step_literal continue_def comp_def
          del: parse_tokens.simps separate.simps)
  qed
next
  case (JObj ps)
  have each: "parse_tokens Value st (tokens_of v @ ts) = continue (reduce v st) ts"
    if "(k, v) \<in> set ps" for k v st ts
    using JObj.IH [of "(k, v)" v Value st ts] JObj.prems(1) that by (auto simp: list_all_iff)
  show ?case
  proof (cases ps)
    case Nil
    then show ?thesis
      using JObj.prems(2)
      by (simp add: parse_tokens_Cons parse_step_literal continue_def del: parse_tokens.simps)
  next
    case (Cons p ps')
    obtain k v where p: "p = (k, v)"
      by (cases p)
    have first: "parse_tokens Value (FKey k # FObj [] # st)
        (tokens_of v @ concat (map (\<lambda>p. Comma # (case p of (k, v) \<Rightarrow> Lit (JStr k) # Colon # tokens_of v)) ps') @ RBrace # ts) =
        continue (reduce v (FKey k # FObj [] # st))
          (concat (map (\<lambda>p. Comma # (case p of (k, v) \<Rightarrow> Lit (JStr k) # Colon # tokens_of v)) ps') @ RBrace # ts)"
      by (rule each [of k v]) (simp add: Cons p)
    have rest: "parse_tokens Next (FObj [(k, v)] # st)
        (concat (map (\<lambda>p. Comma # (case p of (k, v) \<Rightarrow> Lit (JStr k) # Colon # tokens_of v)) ps') @ RBrace # ts) =
        continue (reduce (JObj ([(k, v)] @ ps')) st) ts"
      using each JObj.prems(1) by (intro parse_members) (auto simp: Cons p)
    show ?thesis
      using JObj.prems(2) first rest
      by (simp add: Cons p separate_Cons parse_tokens_Cons parse_step_literal continue_def comp_def
          del: parse_tokens.simps separate.simps)
  qed
qed

lemma JSON_parse_stringify: "serialisable v \<Longrightarrow> JSON_parse (stringify v) = Inr v"
proof -
  assume v: "serialisable v"
  have "tokenize (stringify v @ []) = map_option ((@) (tokens_of v)) (tokenize [])"
    using v by (intro tokenize_stringify) (simp_all add: delimited_def)
  then have "tokenize (stringify v) = Some (tokens_of v)"
    by simp
  moreover have "parse_tokens Value [] (tokens_of v @ []) = continue (reduce v []) []"
    using v by (intro parse_tokens_of) simp_all
  ultimately show ?thesis
    by (simp add: JSON_parse_def continue_def)
qed

lemma places_from_None:
  "places_from fuel e0 x = None \<Longrightarrow> e0 \<le> e \<Longrightarrow> e < e0 + fuel \<Longrightarrow>
   of_int \<lfloor>x * 10 ^ e\<rfloor> \<noteq> x * 10 ^ e"
proof (induction fuel arbitrary: e0)
  case 0
  then show ?case by simp
next
  case (Suc fuel)
  show ?case
  proof (cases "e = e0")
    case True
    then show ?thesis
      using Suc.prems(1) by (auto split: if_splits)
  next
    case False
    then show ?thesis
      using Suc.prems Suc.IH [of "Suc e0"] by (auto split: if_splits)
  qed
qed

lemma dyadic_times_power_10:
  assumes "nat (- e) \<le> n"
  shows "\<bar>of_int m * 2 powi e\<bar> * (10 :: real) ^ n \<in> \<int>"
proof -
  have ten: "(10 :: real) ^ n = 2 ^ n * 5 ^ n"
    by (simp flip: power_mult_distrib)
  have "2 powi e * (2 :: real) ^ n \<in> \<int>"
  proof (cases "0 \<le> e")
    case True
    then show ?thesis
      by (simp add: power_int_def)
  next
    case False
    define k where "k = nat (- e)"
    have "(2 :: real) ^ n = 2 ^ (n - k) * 2 ^ k"
      using assms by (simp add: k_def flip: power_add)
    then have "2 powi e * (2 :: real) ^ n = 2 ^ (n - k)"
      using False by (simp add: power_int_def k_def field_simps)
    then show ?thesis
      by simp
  qed
  moreover have "\<bar>of_int m :: real\<bar> \<in> \<int>" "(5 :: real) ^ n \<in> \<int>"
    by simp_all
  ultimately have "\<bar>of_int m\<bar> * (2 powi e * (2 :: real) ^ n) * 5 ^ n \<in> \<int>"
    by (blast intro: Ints_mult)
  moreover have "\<bar>of_int m * 2 powi e\<bar> * (10 :: real) ^ n =
      \<bar>of_int m\<bar> * (2 powi e * (2 :: real) ^ n) * 5 ^ n"
    by (simp add: ten abs_mult power_int_def)
  ultimately show ?thesis
    by simp
qed

lemma double_decimal_places: "is_double x \<Longrightarrow> decimal_places \<bar>x\<bar> \<noteq> None"
proof
  assume x: "is_double x" and none: "decimal_places \<bar>x\<bar> = None"
  obtain m e :: int where me: "- 1074 \<le> e" "x = of_int m * 2 powi e"
    using x by (auto simp: is_double_def)
  have "nat (- e) \<le> double_places"
    using me(1) by (simp add: double_places_def)
  then have "\<bar>x\<bar> * 10 ^ double_places \<in> \<int>"
    unfolding me(2) by (rule dyadic_times_power_10)
  then have "of_int \<lfloor>\<bar>x\<bar> * 10 ^ double_places\<rfloor> = \<bar>x\<bar> * 10 ^ double_places"
    by (rule of_int_floor)
  moreover have "of_int \<lfloor>\<bar>x\<bar> * 10 ^ double_places\<rfloor> \<noteq> \<bar>x\<bar> * 10 ^ double_places"
    using none unfolding decimal_places_def by (rule places_from_None) simp_all
  ultimately show False
    by blast
qed

lemma serialisable_history_entry: "is_double (views e) \<Longrightarrow> serialisable (history_entry_obj e)"
  by (simp add: history_entry_obj_def str_def double_decimal_places)

lemma serialisable_AnalyticsData_obj: "well_formed d \<Longrightarrow> serialisable (AnalyticsData_obj d)"
  by (simp add: AnalyticsData_obj_def well_formed_def str_def double_decimal_places
      list_all_iff serialisable_history_entry)

lemma serialisable_wrapper: "serialisable (wrapper s) = serialisable s"
  by (simp add: wrapper_def)

lemma has_analyticsData_wrapper: "has_analyticsData (wrapper s)"
  by (simp add: has_analyticsData_def wrapper_def)


text \<open>
  C3: for every wrapper \<^verbatim>\<open>{ analyticsData: s }\<close> where \<open>s\<close> is null or a well-formed
  snapshot, encoding the wrapper and decoding the string with parseValue gives the
  wrapper back.
\<close>

theorem encode_decode_round_trip:
  assumes "s = JNull \<or> (\<exists>d. s = AnalyticsData_obj d \<and> well_formed d)"
  shows "parseValue (Some (Encode (wrapper s))) = Inr (wrapper s)"
proof -
  have "serialisable s"
    using assms by (auto simp: serialisable_AnalyticsData_obj)
  then have "JSON_parse (Encode (wrapper s)) = Inr (wrapper s)"
    unfolding Encode_def by (intro JSON_parse_stringify) (simp add: serialisable_wrapper)
  then show ?thesis
    by (simp add: parseValue_Some has_analyticsData_wrapper)
qed


lemma places_from_numeral:
  "places_from (numeral k) e x =
     (if of_int \<lfloor>x * 10 ^ e\<rfloor> = x * 10 ^ e then Some e else places_from (pred_numeral k) (Suc e) x)"
  using places_from.simps(2) [of "pred_numeral k" e x] by (simp only: numeral_eq_Suc)

lemma dec_numeral:
  "dec (numeral k) =
     (if numeral k < (10 :: nat) then [digit (numeral k)]
      else dec (numeral k div 10) @ [digit (numeral k mod 10)])"
  by (rule dec.simps)

lemma dec_small: "dec 0 = [digit 0]" "dec (Suc 0) = [digit 1]"
  by (simp_all add: dec.simps [of 0] dec.simps [of "Suc 0"])

lemma Number_toString_examples:
  "Number_toString 350 = str ''350''"
  "Number_toString 245 = str ''245''"
  "Number_toString 135 = str ''135''"
  "Number_toString (71 / 2) = str ''35.5''"
  by (simp_all add: Number_toString_def unsigned_toString_def decimal_places_def double_places_def
      places_from_numeral dec_numeral dec_small digit_def str_def)

lemma QuoteJSONString_examples:
  "QuoteJSONString analyticsData_key = str ''\"analyticsData\"''"
  "QuoteJSONString (str ''pageViews'') = str ''\"pageViews\"''"
  "QuoteJSONString (str ''uniqueVisitors'') = str ''\"uniqueVisitors\"''"
  "QuoteJSONString (str ''bounceRate'') = str ''\"bounceRate\"''"
  "QuoteJSONString (str ''avgTimeOnPage'') = str ''\"avgTimeOnPage\"''"
  "QuoteJSONString (str ''lastUpdated'') = str ''\"lastUpdated\"''"
  "QuoteJSONString (str ''pageViewsHistory'') = str ''\"pageViewsHistory\"''"
  "QuoteJSONString (str ''date'') = str ''\"date\"''"
  "QuoteJSONString (str ''views'') = str ''\"views\"''"
  "QuoteJSONString (str ''2020-11-02T00:30:00.000Z'') = str ''\"2020-11-02T00:30:00.000Z\"''"
  "QuoteJSONString (str ''2020-11-02'') = str ''\"2020-11-02\"''"
  by (simp_all add: QuoteJSONString_def analyticsData_key_def str_def quote_unit_def
      is_leading_surrogate_def is_trailing_surrogate_def)

lemma Encode_example:
  "Encode (wrapper (AnalyticsData_obj example_snapshot)) =
   str ''{\"analyticsData\":{\"pageViews\":350,\"uniqueVisitors\":245,\"bounceRate\":35.5,\"avgTimeOnPage\":135,\"lastUpdated\":\"2020-11-02T00:30:00.000Z\",\"pageViewsHistory\":[{\"date\":\"2020-11-02\",\"views\":350}]}}''"
  by (simp add: Encode_def wrapper_def AnalyticsData_obj_def history_entry_obj_def
      example_snapshot_def QuoteJSONString_examples Number_toString_examples)
     (simp add: str_def)

lemma Encode_null: "Encode (wrapper JNull) = str ''{\"analyticsData\":null}''"
  by (simp add: Encode_def wrapper_def analyticsData_key_def QuoteJSONString_def str_def
      quote_unit_def is_leading_surrogate_def is_trailing_surrogate_def)

lemma well_formed_example: "well_formed example_snapshot"
  using is_double_int [of 350] is_double_int [of 245] is_double_int [of 135]
    is_double_quarters [of 142]
  by (simp add: well_formed_def example_snapshot_def)


theorem encode_decode_round_trip_witness:
  "parseValue (Some (Encode (wrapper JNull))) = Inr (wrapper JNull) \<and>
   Encode (wrapper JNull) = str ''{\"analyticsData\":null}'' \<and>
   well_formed example_snapshot \<and>
   Encode (wrapper (AnalyticsData_obj example_snapshot)) =
     str ''{\"analyticsData\":{\"pageViews\":350,\"uniqueVisitors\":245,\"bounceRate\":35.5,\"avgTimeOnPage\":135,\"lastUpdated\":\"2020-11-02T00:30:00.000Z\",\"pageViewsHistory\":[{\"date\":\"2020-11-02\",\"views\":350}]}}'' \<and>
   parseValue (Some (Encode (wrapper (AnalyticsData_obj example_snapshot)))) =
     Inr (wrapper (AnalyticsData_obj example_snapshot))"
  using encode_decode_round_trip [of JNull]
    encode_decode_round_trip [of "AnalyticsData_obj example_snapshot"]
    well_formed_example Encode_null Encode_example
  by blast

section \<open>Properties of the component\<close>

lemma truthy_AnalyticsData_obj: "truthy (AnalyticsData_obj d)"
  by (simp add: truthy_def AnalyticsData_obj_def)

lemma Chart_history: "Chart (JArr (map history_entry_obj es)) = Inr ()"
  by (simp add: Chart_def list_ex_iff list_all_iff history_entry_obj_def property_of_def str_def)

lemma render_AnalyticsData_obj:
  "render b (AnalyticsData_obj d) = Inr (Dashboard (AnalyticsData_obj d) b)"
proof -
  have "property_of (AnalyticsData_obj d) (str ''pageViewsHistory'') =
      JArr (map history_entry_obj (pageViewsHistory d))"
    "property_of (AnalyticsData_obj d) (str ''lastUpdated'') = JStr (lastUpdated d)"
    "property_of (AnalyticsData_obj d) (str ''bounceRate'') = JNum (bounceRate d)"
    "property_of (AnalyticsData_obj d) (str ''avgTimeOnPage'') = JNum (avgTimeOnPage d)"
    "property_of (AnalyticsData_obj d) (str ''pageViews'') = JNum (pageViews d)"
    "property_of (AnalyticsData_obj d) (str ''uniqueVisitors'') = JNum (uniqueVisitors d)"
    by (simp_all add: property_of_def AnalyticsData_obj_def str_def)
  then show ?thesis
    by (simp add: render_def truthy_AnalyticsData_obj Chart_history)
qed

lemma render_disabled:
  assumes "render a d = Inr (Dashboard shown b)"
  shows "shown = d \<and> b = a \<and> render c d = Inr (Dashboard d c)"
  using assms by (auto simp: render_def split: if_splits sum.splits)

lemma display_Ready:
  assumes "display s = Inr (Ready S0)"
  shows "\<not> isLoading s \<and> analyticsData s = S0 \<and> render c S0 = Inr (Dashboard S0 c)"
proof -
  from assms obtain shown b where r: "render (isLoading s) (analyticsData s) = Inr (Dashboard shown b)"
    and b: "\<not> b" and shown: "shown = S0"
    by (auto simp: display_def split: sum.splits view.splits if_splits)
  from render_disabled [OF r, of c] b shown show ?thesis
    by simp
qed

lemma display_snapshot:
  "analyticsData s = AnalyticsData_obj d \<Longrightarrow>
   display s = Inr (if isLoading s then Refreshing (AnalyticsData_obj d) else Ready (AnalyticsData_obj d))"
  by (simp add: display_def render_AnalyticsData_obj)

lemma optional_analyticsData_simps:
  "optional_analyticsData JNull = JUndefined"
  "optional_analyticsData JUndefined = JUndefined"
  "optional_analyticsData invalidValue = JUndefined"
  "optional_analyticsData (JObj ps) =
     (case map_of ps analyticsData_key of None \<Rightarrow> JUndefined | Some x \<Rightarrow> x)"
  by (simp_all add: optional_analyticsData_def invalidValue_def)

lemma render_falsy: "\<not> truthy d \<Longrightarrow> render b d = Inr LoadingText"
  by (simp add: render_def)

lemma mount_generates:
  assumes "\<not> truthy (optional_analyticsData v)"
  shows "mount h v now random =
     \<lparr>isLoading = False,
      analyticsData = AnalyticsData_obj (generateFakeAnalytics h now random),
      timers = [],
      writes = [wrapper (AnalyticsData_obj (generateFakeAnalytics h now random))],
      generated = 1,
      screen = Inr (Dashboard (AnalyticsData_obj (generateFakeAnalytics h now random)) False)\<rparr>"
  using assms
  by (simp add: mount_def load_effect_def initial_render_def rerender_def Let_def truthy_def
      render_falsy render_AnalyticsData_obj)

lemma mount_loads:
  assumes "optional_analyticsData v = AnalyticsData_obj d"
  shows "mount h v now random =
     \<lparr>isLoading = False, analyticsData = AnalyticsData_obj d,
      timers = [], writes = [], generated = 0,
      screen = Inr (Dashboard (AnalyticsData_obj d) False)\<rparr>"
  using assms
  by (simp add: mount_def load_effect_def initial_render_def rerender_def
      truthy_AnalyticsData_obj render_AnalyticsData_obj)

lemma pageViewsHistory_property:
  "map_of [(str ''pageViews'', a), (str ''uniqueVisitors'', b), (str ''bounceRate'', c),
           (str ''avgTimeOnPage'', d), (str ''lastUpdated'', e), (str ''pageViewsHistory'', f)]
     (str ''pageViewsHistory'') = Some f"
  by (simp add: str_def)

text \<open>
  C4: on mount with no persisted snapshot (the value is null, "invalidValue", an object
  without analyticsData or one whose analyticsData is null) the generator is called
  exactly once; the controller is Ready with a snapshot, an object whose property
  pageViewsHistory is an array of exactly 7 entries; that snapshot is on the screen; and
  exactly one value is written, the object whose one property, analyticsData, is that
  snapshot.
\<close>

theorem mount_without_snapshot:
  assumes "v = JNull \<or> v = invalidValue \<or>
           (\<exists>ps. v = JObj ps \<and>
              (map_of ps analyticsData_key = None \<or> map_of ps analyticsData_key = Some JNull))"
  shows "generated (mount h v now random) = 1 \<and>
         (\<exists>fields history.
            display (mount h v now random) = Inr (Ready (JObj fields)) \<and>
            screen (mount h v now random) = Inr (Dashboard (JObj fields) False) \<and>
            map_of fields (str ''pageViewsHistory'') = Some (JArr history) \<and>
            length history = 7 \<and>
            writes (mount h v now random) = [JObj [(str ''analyticsData'', JObj fields)]]) \<and>
         analyticsData (mount h v now random) =
           AnalyticsData_obj (generateFakeAnalytics h now random) \<and>
         timers (mount h v now random) = []"
proof -
  define g where "g = generateFakeAnalytics h now random"
  define fields where "fields =
     [(str ''pageViews'', JNum (pageViews g)),
      (str ''uniqueVisitors'', JNum (uniqueVisitors g)),
      (str ''bounceRate'', JNum (bounceRate g)),
      (str ''avgTimeOnPage'', JNum (avgTimeOnPage g)),
      (str ''lastUpdated'', JStr (lastUpdated g)),
      (str ''pageViewsHistory'', JArr (map history_entry_obj (pageViewsHistory g)))]"
  have obj: "AnalyticsData_obj g = JObj fields"
    by (simp add: AnalyticsData_obj_def fields_def)
  have "\<not> truthy (optional_analyticsData v)"
    using assms by (auto simp: optional_analyticsData_simps truthy_def)
  then have m: "mount h v now random =
     \<lparr>isLoading = False, analyticsData = JObj fields, timers = [],
      writes = [wrapper (JObj fields)], generated = 1,
      screen = Inr (Dashboard (JObj fields) False)\<rparr>"
    by (simp add: mount_generates obj flip: g_def)
  have shown: "display (mount h v now random) = Inr (Ready (JObj fields))"
    using display_snapshot [of "mount h v now random" g] by (simp add: m obj)
  have history: "map_of fields (str ''pageViewsHistory'') =
      Some (JArr (map history_entry_obj (pageViewsHistory g)))"
    unfolding fields_def by (rule pageViewsHistory_property)
  have seven: "length (map history_entry_obj (pageViewsHistory g)) = 7"
    by (simp add: g_def length_pageViewsHistory)
  have written: "writes (mount h v now random) = [JObj [(str ''analyticsData'', JObj fields)]]"
    by (simp add: m wrapper_def analyticsData_key_def)
  have "\<exists>fields history.
      display (mount h v now random) = Inr (Ready (JObj fields)) \<and>
      screen (mount h v now random) = Inr (Dashboard (JObj fields) False) \<and>
      map_of fields (str ''pageViewsHistory'') = Some (JArr history) \<and>
      length history = 7 \<and>
      writes (mount h v now random) = [JObj [(str ''analyticsData'', JObj fields)]]"
    using shown history seven written m by (intro exI [of _ fields] exI [of _ "map history_entry_obj (pageViewsHistory g)"]) simp
  then show ?thesis
    by (simp add: m obj flip: g_def)
qed

theorem mount_without_snapshot_witness:
  "generated (mount utc_host JNull 0 (\<lambda>i. 1 / 2)) = 1 \<and>
   (\<exists>fields history.
      display (mount utc_host JNull 0 (\<lambda>i. 1 / 2)) = Inr (Ready (JObj fields)) \<and>
      screen (mount utc_host JNull 0 (\<lambda>i. 1 / 2)) = Inr (Dashboard (JObj fields) False) \<and>
      map_of fields (str ''pageViewsHistory'') = Some (JArr history) \<and>
      length history = 7 \<and>
      writes (mount utc_host JNull 0 (\<lambda>i. 1 / 2)) = [JObj [(str ''analyticsData'', JObj fields)]]) \<and>
   length (writes (mount utc_host JNull 0 (\<lambda>i. 1 / 2))) = 1"
  using mount_without_snapshot [of JNull utc_host 0 "\<lambda>i. 1 / 2"] by auto

text \<open>
  C5: on mount with a persisted value that carries a snapshot S0 the controller is
  Ready(S0) with S0 on the screen, writes nothing, does not call the generator and sets
  no timer.
\<close>

theorem mount_with_snapshot:
  assumes "map_of ps analyticsData_key = Some S0" and "S0 = AnalyticsData_obj d"
  shows "display (mount h (JObj ps) now random) = Inr (Ready S0) \<and>
         screen (mount h (JObj ps) now random) = Inr (Dashboard S0 False) \<and>
         analyticsData (mount h (JObj ps) now random) = S0 \<and>
         writes (mount h (JObj ps) now random) = [] \<and>
         generated (mount h (JObj ps) now random) = 0 \<and>
         timers (mount h (JObj ps) now random) = []"
proof -
  have "optional_analyticsData (JObj ps) = AnalyticsData_obj d"
    using assms by (simp add: optional_analyticsData_simps)
  then have m: "mount h (JObj ps) now random =
     \<lparr>isLoading = False, analyticsData = AnalyticsData_obj d,
      timers = [], writes = [], generated = 0,
      screen = Inr (Dashboard (AnalyticsData_obj d) False)\<rparr>"
    by (rule mount_loads)
  show ?thesis
    using display_snapshot [of "mount h (JObj ps) now random" d]
    by (simp add: m assms(2))
qed

theorem mount_with_snapshot_witness:
  "map_of [(analyticsData_key, AnalyticsData_obj example_snapshot)] analyticsData_key =
     Some (AnalyticsData_obj example_snapshot) \<and>
   display (mount utc_host (wrapper (AnalyticsData_obj example_snapshot)) 0 (\<lambda>i. 1 / 2)) =
     Inr (Ready (AnalyticsData_obj example_snapshot)) \<and>
   screen (mount utc_host (wrapper (AnalyticsData_obj example_snapshot)) 0 (\<lambda>i. 1 / 2)) =
     Inr (Dashboard (AnalyticsData_obj example_snapshot) False) \<and>
   writes (mount utc_host (wrapper (AnalyticsData_obj example_snapshot)) 0 (\<lambda>i. 1 / 2)) = [] \<and>
   generated (mount utc_host (wrapper (AnalyticsData_obj example_snapshot)) 0 (\<lambda>i. 1 / 2)) = 0"
  using mount_with_snapshot [of "[(analyticsData_key, AnalyticsData_obj example_snapshot)]"
      "AnalyticsData_obj example_snapshot" example_snapshot utc_host 0 "\<lambda>i. 1 / 2"]
  by (simp add: wrapper_def)

text \<open>
  A value under the key that is truthy and no snapshot is loaded all the same, and
  render throws on it: the empty object has no pageViewsHistory for the chart.
\<close>

lemma mount_with_empty_object:
  "display (mount h (wrapper (JObj [])) now random) = Inl TypeError"
  "screen (mount h (wrapper (JObj [])) now random) = Inl TypeError"
  "writes (mount h (wrapper (JObj [])) now random) = []"
  "generated (mount h (wrapper (JObj [])) now random) = 0"
  by (simp_all add: mount_def initial_render_def optional_analyticsData_def wrapper_def
      truthy_def render_def property_of_def Chart_def display_def)

lemma writes_match_mount: "writes_match (mount h v now random)"
proof (cases "truthy (optional_analyticsData v)")
  case True
  then show ?thesis
    by (simp add: writes_match_def mount_def initial_render_def load_effect_def rerender_def
        split: sum.splits)
next
  case False
  then show ?thesis
    by (auto simp: writes_match_def mount_generates)
qed

lemma writes_match_step: "writes_match s \<Longrightarrow> writes_match (step h s e)"
proof (cases e)
  case (Click now)
  assume "writes_match s"
  then show ?thesis
    by (auto simp: Click writes_match_def click_refresh_def refreshAnalytics_def
        split: sum.splits view.splits)
next
  case (Timer now random)
  assume "writes_match s"
  then show ?thesis
    by (cases "timers s")
       (auto simp: Timer run_timer_def writes_match_def timeout_callback_def Let_def)
next
  case Render
  assume "writes_match s"
  then show ?thesis
    by (auto simp: Render writes_match_def rerender_def split: sum.splits)
qed

lemma writes_match_run: "writes_match s \<Longrightarrow> writes_match (run h s es)"
  unfolding run_def by (induction es arbitrary: s) (simp_all add: writes_match_step)

text \<open>
  C10: whatever happens after the mount (clicks, timers, renders), the last value
  written, if any, is the object whose one property, analyticsData, is the snapshot \<open>d\<close>
  that the state variable holds and that the controller displays, as Ready(d) or
  Refreshing(d). The two places that write are the effect of the mount, when it
  generates, and the callback of a refresh: each writes the object whose one property,
  analyticsData, is the snapshot it has generated, and installs that snapshot. A click
  and a render write nothing and leave the snapshot.
\<close>

theorem writes_coincide_with_display:
  "(writes (run h (mount h v now random) es) = [] \<or>
      (\<exists>d. last (writes (run h (mount h v now random) es)) = JObj [(str ''analyticsData'', d)] \<and>
           analyticsData (run h (mount h v now random) es) = d \<and>
           (display (run h (mount h v now random) es) = Inr (Ready d) \<or>
            display (run h (mount h v now random) es) = Inr (Refreshing d)))) \<and>
   writes (load_effect h v now random s) =
     (if truthy (optional_analyticsData v) then writes s
      else writes s @
        [JObj [(str ''analyticsData'', AnalyticsData_obj (generateFakeAnalytics h now random))]]) \<and>
   analyticsData (load_effect h v now random s) =
     (if truthy (optional_analyticsData v) then optional_analyticsData v
      else AnalyticsData_obj (generateFakeAnalytics h now random)) \<and>
   writes (timeout_callback h now random s) =
     writes s @
       [JObj [(str ''analyticsData'', AnalyticsData_obj (generateFakeAnalytics h now random))]] \<and>
   analyticsData (timeout_callback h now random s) =
     AnalyticsData_obj (generateFakeAnalytics h now random) \<and>
   display (timeout_callback h now random s) =
     Inr (Ready (AnalyticsData_obj (generateFakeAnalytics h now random))) \<and>
   writes (click_refresh now s) = writes s \<and>
   analyticsData (click_refresh now s) = analyticsData s \<and>
   writes (rerender s) = writes s \<and>
   analyticsData (rerender s) = analyticsData s"
proof -
  define r where "r = run h (mount h v now random) es"
  have "writes_match r"
    unfolding r_def by (intro writes_match_run writes_match_mount)
  then have last: "writes r = [] \<or>
      (\<exists>d. last (writes r) = JObj [(str ''analyticsData'', d)] \<and> analyticsData r = d \<and>
           (display r = Inr (Ready d) \<or> display r = Inr (Refreshing d)))"
    by (auto simp: writes_match_def wrapper_def analyticsData_key_def display_snapshot)
  have effect: "writes (load_effect h v now random s) =
     (if truthy (optional_analyticsData v) then writes s
      else writes s @
        [JObj [(str ''analyticsData'', AnalyticsData_obj (generateFakeAnalytics h now random))]])"
    "analyticsData (load_effect h v now random s) =
     (if truthy (optional_analyticsData v) then optional_analyticsData v
      else AnalyticsData_obj (generateFakeAnalytics h now random))"
    by (simp_all add: load_effect_def Let_def wrapper_def analyticsData_key_def)
  have callback: "writes (timeout_callback h now random s) =
     writes s @
       [JObj [(str ''analyticsData'', AnalyticsData_obj (generateFakeAnalytics h now random))]]"
    "analyticsData (timeout_callback h now random s) =
     AnalyticsData_obj (generateFakeAnalytics h now random)"
    "display (timeout_callback h now random s) =
     Inr (Ready (AnalyticsData_obj (generateFakeAnalytics h now random)))"
    by (simp_all add: timeout_callback_def Let_def wrapper_def analyticsData_key_def
        display_def render_AnalyticsData_obj)
  have click: "writes (click_refresh now s) = writes s"
    "analyticsData (click_refresh now s) = analyticsData s"
    by (simp_all add: click_refresh_def refreshAnalytics_def split: sum.splits view.splits)
  have again: "writes (rerender s) = writes s" "analyticsData (rerender s) = analyticsData s"
    by (simp_all add: rerender_def split: sum.splits)
  show ?thesis
    using last effect callback click again unfolding r_def by blast
qed

lemma rerender_shown:
  "screen s = render (isLoading s) (analyticsData s) \<Longrightarrow> rerender s = s"
  by (simp add: rerender_def split: sum.splits)

lemma quiet_step:
  assumes "screen s = Inr (Dashboard d True)" and "render True d = Inr (Dashboard d True)"
    and "isLoading s" and "analyticsData s = d" and "timers s = [due]" and "quiet due e"
  shows "step h s e = s"
proof (cases e)
  case (Click now)
  then show ?thesis
    using assms by (simp add: click_refresh_def)
next
  case (Timer now random)
  then show ?thesis
    using assms by (simp add: run_timer_def)
next
  case Render
  then show ?thesis
    using assms by (simp add: rerender_shown)
qed

lemma quiet_run:
  assumes "screen s = Inr (Dashboard d True)" and "render True d = Inr (Dashboard d True)"
    and "isLoading s" and "analyticsData s = d" and "timers s = [due]"
    and "list_all (quiet due) es"
  shows "run h s es = s"
  using assms(6) unfolding run_def
  by (induction es) (simp_all add: quiet_step [OF assms(1-5)])

text \<open>
  C1, as far as it holds. In a state Ready(S0) that is on the screen, with no refresh
  pending, a click on the refresh button at the time \<open>t\<close> gives Refreshing(S0) at once,
  with one callback due at \<open>t + 800\<close> and nothing generated or written. Once React has
  rendered that state, the button is disabled: until the callback runs, clicks change
  nothing, and neither do renders nor the timer before \<open>t + 800\<close>. From \<open>t + 800\<close> on the
  callback runs once: the controller is Ready with the snapshot generated then, the
  object with that snapshot as its property analyticsData is written, no callback
  remains, and the next render shows the new snapshot with the button enabled.
\<close>

theorem refresh_once_rendered_is_no_op:
  assumes "screen s = Inr (Dashboard S0 False)" and "display s = Inr (Ready S0)"
    and "timers s = []" and "list_all (quiet (t + 800)) es"
  shows "display (click_refresh t s) = Inr (Refreshing S0) \<and>
         timers (click_refresh t s) = [t + 800] \<and>
         writes (click_refresh t s) = writes s \<and>
         generated (click_refresh t s) = generated s \<and>
         screen (rerender (click_refresh t s)) = Inr (Dashboard S0 True) \<and>
         click_refresh t' (rerender (click_refresh t s)) = rerender (click_refresh t s) \<and>
         run h (rerender (click_refresh t s)) es = rerender (click_refresh t s) \<and>
         (t + 800 \<le> t'' \<longrightarrow>
            display (run_timer h t'' random (rerender (click_refresh t s))) =
              Inr (Ready (AnalyticsData_obj (generateFakeAnalytics h t'' random))) \<and>
            writes (run_timer h t'' random (rerender (click_refresh t s))) =
              writes s @
                [JObj [(str ''analyticsData'',
                        AnalyticsData_obj (generateFakeAnalytics h t'' random))]] \<and>
            generated (run_timer h t'' random (rerender (click_refresh t s))) = Suc (generated s) \<and>
            timers (run_timer h t'' random (rerender (click_refresh t s))) = [] \<and>
            screen (rerender (run_timer h t'' random (rerender (click_refresh t s)))) =
              Inr (Dashboard (AnalyticsData_obj (generateFakeAnalytics h t'' random)) False))"
proof -
  have ready: "\<not> isLoading s" "analyticsData s = S0"
    and renders: "render True S0 = Inr (Dashboard S0 True)"
    using display_Ready [OF assms(2), of True] by blast+
  have click: "click_refresh t s = s\<lparr>isLoading := True, timers := [t + 800]\<rparr>"
    using assms(1,3) by (simp add: click_refresh_def refreshAnalytics_def)
  have first: "display (click_refresh t s) = Inr (Refreshing S0)"
    "timers (click_refresh t s) = [t + 800]"
    "writes (click_refresh t s) = writes s"
    "generated (click_refresh t s) = generated s"
    using ready(2) renders by (simp_all add: click display_def)
  define r where "r = rerender (click_refresh t s)"
  have r: "r = s\<lparr>isLoading := True, timers := [t + 800], screen := Inr (Dashboard S0 True)\<rparr>"
    using assms(1) ready(2) renders by (simp add: r_def click rerender_def)
  have disabled: "screen r = Inr (Dashboard S0 True)" "isLoading r" "analyticsData r = S0"
    "timers r = [t + 800]"
    using ready(2) by (simp_all add: r)
  have again: "click_refresh t' r = r"
    using disabled(1) by (simp add: click_refresh_def)
  have still: "run h r es = r"
    using disabled(1) renders disabled(2-4) assms(4) by (rule quiet_run)
  have fired: "t + 800 \<le> t'' \<longrightarrow>
      run_timer h t'' random r =
        s\<lparr>isLoading := False, timers := [],
          analyticsData := AnalyticsData_obj (generateFakeAnalytics h t'' random),
          writes := writes s @ [wrapper (AnalyticsData_obj (generateFakeAnalytics h t'' random))],
          generated := Suc (generated s),
          screen := Inr (Dashboard S0 True)\<rparr>"
    by (simp add: r run_timer_def timeout_callback_def Let_def)
  have after: "t + 800 \<le> t'' \<longrightarrow>
      display (run_timer h t'' random r) =
        Inr (Ready (AnalyticsData_obj (generateFakeAnalytics h t'' random))) \<and>
      writes (run_timer h t'' random r) =
        writes s @
          [JObj [(str ''analyticsData'', AnalyticsData_obj (generateFakeAnalytics h t'' random))]] \<and>
      generated (run_timer h t'' random r) = Suc (generated s) \<and>
      timers (run_timer h t'' random r) = [] \<and>
      screen (rerender (run_timer h t'' random r)) =
        Inr (Dashboard (AnalyticsData_obj (generateFakeAnalytics h t'' random)) False)"
    using fired
    by (simp add: display_def rerender_def render_AnalyticsData_obj wrapper_def
        analyticsData_key_def)
  show ?thesis
    using first disabled(1) again still after unfolding r_def by blast
qed

theorem refresh_once_rendered_is_no_op_witness:
  "display (mount utc_host JNull 0 (\<lambda>i. 1 / 2)) =
     Inr (Ready (AnalyticsData_obj (generateFakeAnalytics utc_host 0 (\<lambda>i. 1 / 2)))) \<and>
   display (click_refresh 1000 (mount utc_host JNull 0 (\<lambda>i. 1 / 2))) =
     Inr (Refreshing (AnalyticsData_obj (generateFakeAnalytics utc_host 0 (\<lambda>i. 1 / 2)))) \<and>
   timers (click_refresh 1000 (mount utc_host JNull 0 (\<lambda>i. 1 / 2))) = [1800] \<and>
   run utc_host (rerender (click_refresh 1000 (mount utc_host JNull 0 (\<lambda>i. 1 / 2))))
       [Click 1001, Render, Timer 1799 (\<lambda>i. 1 / 4), Click 1799] =
     rerender (click_refresh 1000 (mount utc_host JNull 0 (\<lambda>i. 1 / 2))) \<and>
   display (run_timer utc_host 1800 (\<lambda>i. 1 / 4)
       (rerender (click_refresh 1000 (mount utc_host JNull 0 (\<lambda>i. 1 / 2))))) =
     Inr (Ready (AnalyticsData_obj (generateFakeAnalytics utc_host 1800 (\<lambda>i. 1 / 4)))) \<and>
   generated (run_timer utc_host 1800 (\<lambda>i. 1 / 4)
       (rerender (click_refresh 1000 (mount utc_host JNull 0 (\<lambda>i. 1 / 2))))) = 2"
proof -
  have m: "mount utc_host JNull 0 (\<lambda>i. 1 / 2) =
     \<lparr>isLoading = False,
      analyticsData = AnalyticsData_obj (generateFakeAnalytics utc_host 0 (\<lambda>i. 1 / 2)),
      timers = [],
      writes = [wrapper (AnalyticsData_obj (generateFakeAnalytics utc_host 0 (\<lambda>i. 1 / 2)))],
      generated = 1,
      screen = Inr (Dashboard (AnalyticsData_obj (generateFakeAnalytics utc_host 0 (\<lambda>i. 1 / 2))) False)\<rparr>"
    by (rule mount_generates) (simp add: optional_analyticsData_def truthy_def)
  have shown: "screen (mount utc_host JNull 0 (\<lambda>i. 1 / 2)) =
     Inr (Dashboard (AnalyticsData_obj (generateFakeAnalytics utc_host 0 (\<lambda>i. 1 / 2))) False)"
    by (simp add: m)
  have ready: "display (mount utc_host JNull 0 (\<lambda>i. 1 / 2)) =
     Inr (Ready (AnalyticsData_obj (generateFakeAnalytics utc_host 0 (\<lambda>i. 1 / 2))))"
    by (simp add: m display_def render_AnalyticsData_obj)
  have idle: "timers (mount utc_host JNull 0 (\<lambda>i. 1 / 2)) = []"
    by (simp add: m)
  have gen: "generated (mount utc_host JNull 0 (\<lambda>i. 1 / 2)) = 1"
    by (simp add: m)
  have quiet: "list_all (quiet (1000 + 800)) [Click 1001, Render, Timer 1799 (\<lambda>i. 1 / 4), Click 1799]"
    by simp
  show ?thesis
    using refresh_once_rendered_is_no_op [OF shown ready idle quiet, of 1001 utc_host 1800 "\<lambda>i. 1 / 4"]
      ready gen
    by simp
qed

text \<open>
  C1 as it is stated does not hold: \<^verbatim>\<open>refreshAnalytics\<close> has no guard of its own, and
  the button is disabled from the next render on only. A second click that comes before
  that render, while the first refresh is pending, sets a second timer, and each of the
  two callbacks generates a snapshot and writes it.
\<close>

theorem second_click_before_render_refreshes_again:
  "display (mount utc_host JNull 0 (\<lambda>i. 1 / 2)) =
     Inr (Ready (AnalyticsData_obj (generateFakeAnalytics utc_host 0 (\<lambda>i. 1 / 2)))) \<and>
   display (click_refresh 1000 (mount utc_host JNull 0 (\<lambda>i. 1 / 2))) =
     Inr (Refreshing (AnalyticsData_obj (generateFakeAnalytics utc_host 0 (\<lambda>i. 1 / 2)))) \<and>
   timers (click_refresh 1000 (mount utc_host JNull 0 (\<lambda>i. 1 / 2))) = [1800] \<and>
   timers (click_refresh 1001 (click_refresh 1000 (mount utc_host JNull 0 (\<lambda>i. 1 / 2)))) =
     [1800, 1801] \<and>
   generated (mount utc_host JNull 0 (\<lambda>i. 1 / 2)) = 1 \<and>
   generated (run utc_host (mount utc_host JNull 0 (\<lambda>i. 1 / 2))
     [Click 1000, Click 1001, Render, Timer 1800 (\<lambda>i. 1 / 4), Render, Timer 1801 (\<lambda>i. 3 / 4)]) = 3 \<and>
   length (writes (mount utc_host JNull 0 (\<lambda>i. 1 / 2))) = 1 \<and>
   length (writes (run utc_host (mount utc_host JNull 0 (\<lambda>i. 1 / 2))
     [Click 1000, Click 1001, Render, Timer 1800 (\<lambda>i. 1 / 4), Render, Timer 1801 (\<lambda>i. 3 / 4)])) = 3"
proof -
  have m: "mount utc_host JNull 0 (\<lambda>i. 1 / 2) =
     \<lparr>isLoading = False,
      analyticsData = AnalyticsData_obj (generateFakeAnalytics utc_host 0 (\<lambda>i. 1 / 2)),
      timers = [],
      writes = [wrapper (AnalyticsData_obj (generateFakeAnalytics utc_host 0 (\<lambda>i. 1 / 2)))],
      generated = 1,
      screen = Inr (Dashboard (AnalyticsData_obj (generateFakeAnalytics utc_host 0 (\<lambda>i. 1 / 2))) False)\<rparr>"
    by (rule mount_generates) (simp add: optional_analyticsData_def truthy_def)
  show ?thesis
    unfolding m
    by (simp add: run_def click_refresh_def refreshAnalytics_def rerender_def run_timer_def
        timeout_callback_def Let_def display_def render_AnalyticsData_obj)
qed

end
